(* ===== verification/Prelude.thy ===== *)
theory Prelude
  imports Main "HOL-Library.Char_ord" "HOL-Library.Sublist"
begin

text \<open>
  Shared vocabulary of the lexer development: Go's byte strings as HOL strings (a
  \<open>char\<close> is exactly one byte), the NUL byte that the Go lexer uses as its end-of-input
  sentinel, Go's string slicing \<open>s[a:b]\<close> as a fallible operation, and the list
  lemmas about \<open>takeWhile\<close>, \<open>dropWhile\<close> and \<open>drop\<close> that the scanning loops need.
\<close>

named_theorems lexer_defs \<open>definitions of the lexer model unfolded by its proofs\<close>
named_theorems char_class \<open>facts on the character classes of the lexer\<close>

type_synonym byte = char

abbreviation NUL :: byte where
  "NUL \<equiv> CHR 0x00"

subsection \<open>Go string slicing\<close>

text \<open>
  Go's \<open>s[a:b]\<close> on a string panics unless \<open>0 \<le> a \<le> b \<le> len(s)\<close>; otherwise it is
  the bytes at positions \<open>a, \<dots>, b - 1\<close>. The panic is \<open>None\<close>.
\<close>

definition go_slice :: "string \<Rightarrow> nat \<Rightarrow> nat \<Rightarrow> string option" where
  "go_slice s a b = (if a \<le> b \<and> b \<le> length s then Some (take (b - a) (drop a s)) else None)"

lemma go_slice_Some [simp]:
  "a \<le> b \<Longrightarrow> b \<le> length s \<Longrightarrow> go_slice s a b = Some (take (b - a) (drop a s))"
  by (simp add: go_slice_def)

lemma go_slice_None_iff:
  "go_slice s a b = None \<longleftrightarrow> \<not> (a \<le> b \<and> b \<le> length s)"
  by (simp add: go_slice_def)

text \<open>
  Go's conversion \<open>string(b)\<close> of a \<open>byte\<close> reads the byte as a Unicode code
  point and encodes it in UTF-8: one byte below 128, two bytes
  \<open>0xC0 | b >> 6\<close>, \<open>0x80 | b & 0x3F\<close> from 128 on.
\<close>

definition go_string_of_byte :: "byte \<Rightarrow> string" where
  "go_string_of_byte c =
     (if of_char c < (128::nat) then [c]
      else [char_of (192 + of_char c div (64::nat)), char_of (128 + of_char c mod (64::nat))])"

lemma go_string_of_byte_ascii [simp]:
  "of_char c < (128::nat) \<Longrightarrow> go_string_of_byte c = [c]"
  by (simp add: go_string_of_byte_def)

subsection \<open>Lists\<close>

lemma drop_nth_Cons:
  "i < length xs \<Longrightarrow> drop i xs = xs ! i # drop (Suc i) xs"
  by (simp add: Cons_nth_drop_Suc)

lemma drop_empty_iff_le [simp]:
  "drop i xs = [] \<longleftrightarrow> length xs \<le> i"
  by simp

lemma takeWhile_append_stop:
  assumes "\<forall>x\<in>set xs. P x" and "ys = [] \<or> \<not> P (hd ys)"
  shows "takeWhile P (xs @ ys) = xs"
  using assms by (cases ys) (auto simp: takeWhile_append2)

lemma dropWhile_append_stop:
  assumes "\<forall>x\<in>set xs. P x" and "ys = [] \<or> \<not> P (hd ys)"
  shows "dropWhile P (xs @ ys) = ys"
  using assms by (cases ys) (auto simp: dropWhile_append2)

lemma length_dropWhile_less:
  "length xs < n \<Longrightarrow> length (dropWhile P xs) < n"
  using length_dropWhile_le [of P xs] by linarith

text \<open>
  A maximal run of \<open>P\<close>-bytes that ends where \<open>y\<close> begins also ends where \<open>z\<close>
  begins, if \<open>z\<close> is empty, starts like \<open>y\<close>, or starts with a byte outside \<open>P\<close>.
\<close>

lemma dropWhile_stable:
  assumes "dropWhile P (xs @ y) = y"
      and "z = [] \<or> (y \<noteq> [] \<and> hd z = hd y) \<or> \<not> P (hd z)"
  shows "dropWhile P (xs @ z) = z \<and> takeWhile P (xs @ z) = takeWhile P (xs @ y)"
proof -
  have all: "\<forall>x\<in>set xs. P x"
  proof (rule ccontr)
    assume "\<not> (\<forall>x\<in>set xs. P x)"
    then have "dropWhile P (xs @ y) = dropWhile P xs @ y" and "dropWhile P xs \<noteq> []"
      by (auto simp: dropWhile_append)
    with assms(1) show False by simp
  qed
  with assms(1) have y: "dropWhile P y = y" by (simp add: dropWhile_append2)
  have ty: "takeWhile P y = []"
    using y takeWhile_dropWhile_id [of P y] by simp
  then have "y = [] \<or> \<not> P (hd y)" by (simp add: takeWhile_eq_Nil_iff)
  then have "dropWhile P z = z \<and> takeWhile P z = []"
    using assms(2) by (cases z) auto
  with all ty show ?thesis by (simp add: dropWhile_append2 takeWhile_append2)
qed

lemma take_append_replicate:
  assumes "n \<le> m"
  shows "take n (xs @ replicate m x) = take n (xs @ replicate n x)"
proof -
  have "n - length xs \<le> m" using assms by arith
  then show ?thesis by (simp add: take_append min_def)
qed

lemma length_takeWhile_le_nth:
  assumes "i < length xs" and "\<not> P (xs ! i)"
  shows "length (takeWhile P xs) \<le> i"
proof (rule ccontr)
  assume "\<not> length (takeWhile P xs) \<le> i"
  then have i: "i < length (takeWhile P xs)" by simp
  then have "takeWhile P xs ! i \<in> set (takeWhile P xs)" by (rule nth_mem)
  moreover have "takeWhile P xs ! i = xs ! i" using i by (rule takeWhile_nth)
  ultimately show False using assms(2) by (auto dest: set_takeWhileD)
qed

lemma takeWhile_dropWhile_stop:
  "dropWhile P xs = [] \<or> \<not> P (hd (dropWhile P xs))"
  using hd_dropWhile [of P xs] by blast

end
