(* ===== verification/Token.thy ===== *)
theory Token
  imports Prelude
begin

text \<open>
  The token package \<open>monkey/token\<close> that the lexer imports (\<open>token.TokenType\<close>,
  \<open>token.Token\<close>, \<open>token.LookupIdent\<close> and the keyword table). Its source is not part
  of the repository's \<open>src/\<close>; it is modelled from the specification (section 3 and
  4.2) and from the uses in \<open>src/lexer/lexer.go\<close> and \<open>src/lexer/lexer_test.go\<close>:
  the token kinds are a closed enumeration, a token pairs a kind with its literal, and
  identifier-shaped lexemes are classified by an exact lookup in a fixed keyword table
  (\<open>fn\<close> and \<open>let\<close>, as the tests expect), defaulting to \<open>IDENT\<close>.
  The constructors carry the names of the Go constants, except that \<open>token.INT\<close> is
  \<open>INTEGER\<close> here (\<open>INT\<close> is the syntax of HOL's indexed intersection).
\<close>

datatype TokenType =
    ILLEGAL | EOF | IDENT | INTEGER
  | ASSIGN | PLUS | COMMA | SEMICOLON | LPAREN | RPAREN | LBRACE | RBRACE
  | FUNCTION | LET

record Token =
  Type :: TokenType
  Literal :: string

text \<open>The keyword table, a Go \<open>map[string]TokenType\<close>, as an association list.\<close>

definition keywords_map :: "(string \<times> TokenType) list" where
  "keywords_map = [(''fn'', FUNCTION), (''let'', LET)]"

definition LookupIdent :: "string \<Rightarrow> TokenType" where
  "LookupIdent ident = (case map_of keywords_map ident of Some tok \<Rightarrow> tok | None \<Rightarrow> IDENT)"

definition keyword_kinds :: "TokenType set" where
  "keyword_kinds = {FUNCTION, LET}"

lemma map_of_keywords:
  "map_of keywords_map w = (if w = ''fn'' then Some FUNCTION else if w = ''let'' then Some LET else None)"
  by (simp add: keywords_map_def)

lemma LookupIdent_cases:
  "LookupIdent w = IDENT \<or> LookupIdent w \<in> keyword_kinds"
  by (simp add: LookupIdent_def map_of_keywords keyword_kinds_def)

lemma LookupIdent_IDENT_iff:
  "LookupIdent w = IDENT \<longleftrightarrow> w \<notin> fst ` set keywords_map"
  by (auto simp: LookupIdent_def map_of_keywords keywords_map_def)

end
