(* ===== verification/Chars.thy ===== *)
theory Chars
  imports Token
begin

text \<open>
  The byte-level helpers of \<open>src/lexer/lexer.go\<close>: the character classes
  \<open>isDigit\<close> and \<open>isLetter\<close>, the condition of the loop in
  \<open>skipWhitespace\<close>, \<open>newToken\<close> (a token whose literal is Go's
  \<open>string(byte)\<close> of one byte) and the eight single-byte cases of the \<open>switch\<close> of
  \<open>NextToken\<close> as a table.  The lemmas decide each class on the byte's code
  (\<open>char_code\<close>) and record that the classes are disjoint and never hold of NUL
  (collection \<open>char_class\<close>).
\<close>

definition isDigit :: "byte \<Rightarrow> bool" where
  "isDigit character = (CHR ''0'' \<le> character \<and> character \<le> CHR ''9'')"

definition isLetter :: "byte \<Rightarrow> bool" where
  "isLetter character =
     (CHR ''a'' \<le> character \<and> character \<le> CHR ''z'' \<or>
      CHR ''A'' \<le> character \<and> character \<le> CHR ''Z'' \<or> character = CHR ''_'')"

text \<open>The condition of the loop in \<open>skipWhitespace\<close>.\<close>

definition isWhitespace :: "byte \<Rightarrow> bool" where
  "isWhitespace ch = (ch = CHR '' '' \<or> ch = CHR 0x09 \<or> ch = CHR 0x0A \<or> ch = CHR 0x0D)"

definition newToken :: "TokenType \<Rightarrow> byte \<Rightarrow> Token" where
  "newToken tokenType character = \<lparr>Type = tokenType, Literal = go_string_of_byte character\<rparr>"

text \<open>
  The single-character cases of the \<open>switch\<close> in \<open>NextToken\<close> as a table, the
  Go \<open>case '=': tok = newToken(token.ASSIGN, ...)\<close> lines read as one lookup.
\<close>

definition punctuation :: "byte \<Rightarrow> TokenType option" where
  "punctuation = map_of
     [(CHR ''='', ASSIGN), (CHR '';'', SEMICOLON), (CHR ''('', LPAREN), (CHR '')'', RPAREN),
      (CHR ''{'', LBRACE), (CHR ''}'', RBRACE), (CHR '','', COMMA), (CHR ''+'', PLUS)]"

lemma char_classes_not_NUL [char_class]:
  "\<not> isLetter NUL" "\<not> isDigit NUL" "\<not> isWhitespace NUL"
  by (simp_all add: isLetter_def isDigit_def isWhitespace_def)

lemma char_eq_code: "(c = d) \<longleftrightarrow> (of_char c :: nat) = of_char d"
  by simp

lemma isLetter_code: "isLetter c \<longleftrightarrow> (97 \<le> (of_char c::nat) \<and> (of_char c::nat) \<le> 122 \<or> 65 \<le> (of_char c::nat) \<and> (of_char c::nat) \<le> 90 \<or> (of_char c::nat) = 95)"
  unfolding isLetter_def less_eq_char_def char_eq_code by simp

lemma isDigit_code: "isDigit c \<longleftrightarrow> (48 \<le> (of_char c::nat) \<and> (of_char c::nat) \<le> 57)"
  unfolding isDigit_def less_eq_char_def by simp

lemma isWhitespace_code: "isWhitespace c \<longleftrightarrow> ((of_char c::nat) \<in> {32, 9, 10, 13})"
  unfolding isWhitespace_def char_eq_code by simp

lemmas char_code = isLetter_code isDigit_code isWhitespace_code

lemma punctuation_None_code: "punctuation c = None \<longleftrightarrow> (of_char c::nat) \<notin> {61, 59, 40, 41, 123, 125, 44, 43}"
  by (auto simp: punctuation_def char_eq_code)

lemma punctuation_classes [char_class]:
  "isLetter c \<Longrightarrow> punctuation c = None"
  "isDigit c \<Longrightarrow> punctuation c = None"
  "isWhitespace c \<Longrightarrow> punctuation c = None"
  "isLetter c \<Longrightarrow> \<not> isDigit c"
  "isWhitespace c \<Longrightarrow> \<not> isLetter c"
  "isWhitespace c \<Longrightarrow> \<not> isDigit c"
  "punctuation NUL = None"
  by (auto simp: char_code punctuation_None_code)

end
