(* ===== verification/Scan.thy ===== *)
theory Scan
  imports Chars
begin

text \<open>
  The lexer seen from its input: \<open>scan\<close> reads one token off the front of the unread
  text and returns it with the text that is left, following the case order of
  \<open>NextToken\<close> in \<open>src/lexer/lexer.go\<close> but with no positions, no current-character
  cache and no sentinel field.  \<open>scan_iter n\<close> is \<open>n\<close> successive calls;
  \<open>tokens\<close> is the token sequence up to (excluding) the first \<open>EOF\<close>;
  \<open>print_tokens\<close> writes tokens back as text, each literal followed by one space.
  Lexer.thy proves that the Go state machine computes exactly \<open>scan\<close> on the
  unread input.  This theory proves the properties of \<open>scan\<close> that the
  specification's section 8 asks of the lexer: every token is a lexeme of the input
  (\<open>scan_decompose\<close>), a token's end does not depend on what follows beyond one byte
  (\<open>scan_stable\<close>), whitespace inserted at a token boundary changes no token
  (\<open>scan_iter_insert_ws\<close>), the stream ends in \<open>EOF\<close> forever after at most
  \<open>length s\<close> tokens (\<open>scan_iter_eventually_EOF\<close>), on input without NUL bytes it
  is \<open>tokens s\<close> followed by \<open>EOF\<close>s (\<open>tokens_stream\<close>), and printing the
  tokens of ASCII text and scanning again gives them back (\<open>tokens_print_tokens\<close>);
  a NUL byte ends the token sequence as the end of the text does
  (\<open>tokens_NUL_truncate\<close>).
\<close>

definition eofToken :: Token where
  "eofToken = \<lparr>Type = EOF, Literal = ''''\<rparr>"

definition scan :: "string \<Rightarrow> Token \<times> string" where
  "scan s =
     (case dropWhile isWhitespace s of
        [] \<Rightarrow> (eofToken, [])
      | c # cs \<Rightarrow>
          (case punctuation c of
             Some k \<Rightarrow> (newToken k c, cs)
           | None \<Rightarrow>
               if c = NUL then (eofToken, cs)
               else if isLetter c then
                 (\<lparr>Type = LookupIdent (takeWhile isLetter (c # cs)),
                   Literal = takeWhile isLetter (c # cs)\<rparr>, dropWhile isLetter (c # cs))
               else if isDigit c then
                 (\<lparr>Type = INTEGER, Literal = takeWhile isDigit (c # cs)\<rparr>,
                  dropWhile isDigit (c # cs))
               else (newToken ILLEGAL c, cs)))"

primrec scan_iter :: "nat \<Rightarrow> string \<Rightarrow> Token list \<times> string" where
  "scan_iter 0 s = ([], s)"
| "scan_iter (Suc n) s =
     (let (t, r) = scan s; (ts, r') = scan_iter n r in (t # ts, r'))"

function tokens :: "string \<Rightarrow> Token list" where
  "tokens s = (let (t, r) = scan s in if Type t = EOF then [] else t # tokens r)"
  by pat_completeness auto
termination
proof (relation "measure length")
  fix s p t r
  assume "p = scan s" "(t, r) = p" "Type t \<noteq> EOF"
  then show "(r, s) \<in> measure length"
    using length_dropWhile_le [of isWhitespace s]
    by (auto simp: scan_def eofToken_def split: list.splits option.splits if_splits
             intro!: length_dropWhile_less)
qed simp

declare tokens.simps [simp del] scan_iter.simps [simp del]

definition ascii_text :: "string \<Rightarrow> bool" where
  "ascii_text s \<longleftrightarrow> list_all (\<lambda>c. of_char c < (128::nat)) s"

definition print_tokens :: "Token list \<Rightarrow> string" where
  "print_tokens ts = concat (map (\<lambda>t. Literal t @ '' '') ts)"

lemma scan_ws_prefix:
  "\<forall>c\<in>set w. isWhitespace c \<Longrightarrow> scan (w @ s) = scan s"
  by (simp add: scan_def dropWhile_append2)

lemma scan_Nil [simp]: "scan [] = (eofToken, [])"
  by (simp add: scan_def)

lemma scan_end:
  assumes "\<forall>c\<in>set s. isWhitespace c"
  shows "scan s = (eofToken, [])"
  using scan_ws_prefix [OF assms, of "[]"] by simp

lemma scan_shorter:
  "s \<noteq> [] \<Longrightarrow> length (snd (scan s)) < length s"
  using length_dropWhile_le [of isWhitespace s]
  by (auto simp: scan_def split: list.splits option.splits if_splits intro!: length_dropWhile_less)

lemma scan_suffix:
  "suffix (snd (scan s)) s"
proof -
  have d: "suffix (dropWhile isWhitespace s) s" by (rule suffix_dropWhile)
  have "suffix (snd (scan s)) (dropWhile isWhitespace s)"
    by (auto simp: scan_def suffix_ConsI split: list.splits option.splits
             intro: suffix_order.trans [OF suffix_dropWhile])
  then show ?thesis using d by (rule suffix_order.trans)
qed

lemma scan_iter_Suc:
  "scan_iter (Suc n) s =
     (fst (scan s) # fst (scan_iter n (snd (scan s))), snd (scan_iter n (snd (scan s))))"
  by (simp add: scan_iter.simps split_def Let_def)

lemmas scan_iter_simps [simp] = scan_iter.simps(1) scan_iter_Suc

lemma scan_stable:
  assumes sc: "scan (u @ y) = (t, y)"
      and tok: "\<not> (\<forall>c\<in>set u. isWhitespace c)"
      and z: "z = [] \<or> (y \<noteq> [] \<and> hd z = hd y) \<or> \<not> isLetter (hd z) \<and> \<not> isDigit (hd z)"
  shows "scan (u @ z) = (t, z)"
proof -
  obtain c cs where d: "dropWhile isWhitespace u = c # cs"
    using tok by (cases "dropWhile isWhitespace u") auto
  obtain x where "x \<in> set u" "\<not> isWhitespace x" using tok by blast
  then have dy: "dropWhile isWhitespace (u @ y) = c # cs @ y"
   and dz: "dropWhile isWhitespace (u @ z) = c # cs @ z"
    using d by (simp_all add: dropWhile_append1)
  have zc: "\<And>P. P = isLetter \<or> P = isDigit \<Longrightarrow>
              z = [] \<or> (y \<noteq> [] \<and> hd z = hd y) \<or> \<not> P (hd z)"
    using z by blast
  show ?thesis
  proof (cases "punctuation c = None \<and> c \<noteq> NUL \<and> (isLetter c \<or> isDigit c)")
    case False
    then have "cs @ y = y" and "t = fst (scan (u @ z))"
      using sc by (auto simp: scan_def dy dz split: option.splits if_splits)
    then show ?thesis using False by (auto simp: scan_def dz split: option.splits)
  next
    case True
    show ?thesis
    proof (cases "isLetter c")
      case True
      with \<open>punctuation c = None \<and> _\<close> sc
      have "dropWhile isLetter (c # cs @ y) = y"
        and t: "t = \<lparr>Type = LookupIdent (takeWhile isLetter (c # cs @ y)),
                     Literal = takeWhile isLetter (c # cs @ y)\<rparr>"
        by (auto simp: scan_def dy)
      then have "dropWhile isLetter ((c # cs) @ z) = z \<and>
                 takeWhile isLetter ((c # cs) @ z) = takeWhile isLetter ((c # cs) @ y)"
        using zc [of isLetter] by (intro dropWhile_stable) (auto simp: char_class)
      then show ?thesis using True \<open>punctuation c = None \<and> _\<close> t
        by (simp add: scan_def dz)
    next
      case False
      with \<open>punctuation c = None \<and> _\<close> have dig: "isDigit c" by simp
      with False \<open>punctuation c = None \<and> _\<close> sc
      have "dropWhile isDigit (c # cs @ y) = y"
        and t: "t = \<lparr>Type = INTEGER, Literal = takeWhile isDigit (c # cs @ y)\<rparr>"
        by (auto simp: scan_def dy)
      then have "dropWhile isDigit ((c # cs) @ z) = z \<and>
                 takeWhile isDigit ((c # cs) @ z) = takeWhile isDigit ((c # cs) @ y)"
        using zc [of isDigit] by (intro dropWhile_stable) (auto simp: char_class)
      then show ?thesis using False dig \<open>punctuation c = None \<and> _\<close> t
        by (simp add: scan_def dz)
    qed
  qed
qed

lemma scan_iter_ws_prefix:
  "\<forall>c\<in>set w. isWhitespace c \<Longrightarrow> fst (scan_iter n (w @ s)) = fst (scan_iter n s)"
  by (cases n) (simp_all add: scan_ws_prefix)

lemma scan_iter_suffix: "suffix (snd (scan_iter k s)) s"
proof (induction k arbitrary: s)
  case 0
  then show ?case by simp
next
  case (Suc k)
  have "suffix (snd (scan_iter k (snd (scan s)))) (snd (scan s))" by (rule Suc.IH)
  then have "suffix (snd (scan_iter k (snd (scan s)))) s"
    using scan_suffix by (rule suffix_order.trans)
  then show ?case by simp
qed

lemma scan_all_ws_rest:
  assumes "scan (u @ r) = (t, r)" and "\<forall>c\<in>set u. isWhitespace c"
  shows "r = []"
proof (rule ccontr)
  assume "r \<noteq> []"
  then have "length (snd (scan r)) < length r" by (rule scan_shorter)
  moreover have "scan r = (t, r)" using assms by (simp add: scan_ws_prefix)
  ultimately show False by simp
qed

lemma scan_iter_insert_ws:
  assumes "snd (scan_iter k s) = r" and "s = u @ r" and "\<forall>c\<in>set w. isWhitespace c"
  shows "fst (scan_iter n (u @ w @ r)) = fst (scan_iter n s)"
  using assms(1,2)
proof (induction k arbitrary: s u n)
  case 0
  then show ?case using assms(3) by (simp add: scan_iter_ws_prefix)
next
  case (Suc k)
  obtain t s1 where sc: "scan s = (t, s1)" by fastforce
  with Suc.prems(1) have r: "snd (scan_iter k s1) = r" by (simp add: split_def Let_def)
  obtain v where s1: "s1 = v @ r"
    using scan_iter_suffix [of k s1] r by (auto elim: suffixE)
  obtain u0 where s: "s = u0 @ s1"
    using scan_suffix [of s] sc by (auto elim: suffixE)
  with s1 Suc.prems(2) have u: "u = u0 @ v" by simp
  show ?case
  proof (cases "\<forall>c\<in>set u0. isWhitespace c")
    case True
    with sc s have "s1 = []" by (intro scan_all_ws_rest [of u0 s1 t]) simp_all
    with s1 u s True have ws: "\<forall>c\<in>set (s @ []). isWhitespace c" and "u @ w @ r = s @ w"
      by auto
    moreover have "\<forall>c\<in>set ((s @ w) @ []). isWhitespace c" using ws assms(3) by auto
    ultimately show ?thesis
      using scan_iter_ws_prefix [of "s @ w" n "[]"] scan_iter_ws_prefix [of s n "[]"] by simp
  next
    case False
    have IH: "fst (scan_iter m (v @ w @ r)) = fst (scan_iter m s1)" for m
      using r s1 by (rule Suc.IH)
    have "scan (u0 @ v @ w @ r) = (t, v @ w @ r)"
    proof (rule scan_stable [of u0 s1])
      show "scan (u0 @ s1) = (t, s1)" using sc s by simp
      show "v @ w @ r = [] \<or> (s1 \<noteq> [] \<and> hd (v @ w @ r) = hd s1) \<or>
            \<not> isLetter (hd (v @ w @ r)) \<and> \<not> isDigit (hd (v @ w @ r))"
        using s1 assms(3) by (cases v; cases w) (auto simp: char_class)
    qed (use False in simp)
    then show ?thesis using u IH sc by (cases n) (simp_all add: scan_iter_Suc)
  qed
qed

lemma scan_iter_Nil: "fst (scan_iter n []) = replicate n eofToken"
  by (induction n) (simp_all add: scan_iter_Suc)

lemma length_scan_iter_rest:
  "length (snd (scan_iter k s)) \<le> length s - k"
proof (induction k arbitrary: s)
  case 0
  then show ?case by simp
next
  case (Suc k)
  have "length (snd (scan_iter k (snd (scan s)))) \<le> length (snd (scan s)) - k" by (rule Suc.IH)
  moreover have "length (snd (scan s)) \<le> length s - 1"
    using scan_shorter [of s] by (cases "s = []") auto
  ultimately show ?case by (simp add: split_def Let_def)
qed

lemma scan_iter_nth:
  "i < n \<Longrightarrow> fst (scan_iter n s) ! i = fst (scan (snd (scan_iter i s)))"
proof (induction i arbitrary: n s)
  case 0
  then show ?case by (cases n) (simp_all add: scan_iter_Suc)
next
  case (Suc i)
  then obtain m where "n = Suc m" "i < m" by (cases n) auto
  with Suc.IH show ?case by (simp add: scan_iter_Suc split_def Let_def)
qed

lemma scan_iter_length [simp]: "length (fst (scan_iter n s)) = n"
  by (induction n arbitrary: s) (simp_all add: scan_iter_Suc)

lemma scan_iter_eventually_EOF:
  "length s \<le> i \<Longrightarrow> i < n \<Longrightarrow> fst (scan_iter n s) ! i = eofToken"
  using length_scan_iter_rest [of i s] by (simp add: scan_iter_nth)

lemma punctuation_Some:
  "punctuation c = Some k \<Longrightarrow>
   of_char c < (128::nat) \<and> k \<in> {ASSIGN, SEMICOLON, LPAREN, RPAREN, LBRACE, RBRACE, COMMA, PLUS}"
  by (auto simp: punctuation_def split: if_splits)

lemma scan_Type_EOF:
  assumes "NUL \<notin> set s" and "Type (fst (scan s)) = EOF"
  shows "scan s = (eofToken, [])"
proof (cases "dropWhile isWhitespace s")
  case Nil
  show ?thesis by (simp add: scan_def Nil)
next
  case (Cons c cs)
  then have "c \<in> set s" using set_dropWhileD [of c isWhitespace s] by simp
  with assms Cons show ?thesis
    using LookupIdent_cases [of "takeWhile isLetter (c # cs)"] punctuation_Some [of c]
    by (auto simp: scan_def newToken_def keyword_kinds_def split: option.splits if_splits)
qed

lemma NUL_free_rest:
  "NUL \<notin> set s \<Longrightarrow> NUL \<notin> set (snd (scan s))"
  using set_mono_suffix [OF scan_suffix [of s]] by blast

lemma ascii_text_rest:
  "ascii_text s \<Longrightarrow> ascii_text (snd (scan s))"
  using set_mono_suffix [OF scan_suffix [of s]] by (auto simp: ascii_text_def list_all_iff)

lemma tokens_unfold:
  "tokens s = (if Type (fst (scan s)) = EOF then [] else fst (scan s) # tokens (snd (scan s)))"
  by (subst tokens.simps) (simp add: split_def Let_def)

lemma tokens_stream:
  "NUL \<notin> set s \<Longrightarrow> fst (scan_iter n s) = take n (tokens s @ replicate n eofToken)"
proof (induction n arbitrary: s)
  case 0
  then show ?case by simp
next
  case (Suc n)
  show ?case
  proof (cases "Type (fst (scan s)) = EOF")
    case True
    with Suc.prems have "scan s = (eofToken, [])" by (rule scan_Type_EOF)
    then show ?thesis using True by (simp add: scan_iter_Nil tokens_unfold [of s])
  next
    case False
    have "fst (scan_iter n (snd (scan s))) = take n (tokens (snd (scan s)) @ replicate n eofToken)"
      using Suc.prems by (intro Suc.IH NUL_free_rest)
    moreover have "take n (tokens (snd (scan s)) @ replicate (Suc n) eofToken) =
                   take n (tokens (snd (scan s)) @ replicate n eofToken)"
      by (rule take_append_replicate) simp
    ultimately show ?thesis using False
      by (simp add: tokens_unfold [of s] del: take_append replicate_Suc)
  qed
qed

lemma scan_decompose:
  assumes sc: "scan s = (t, r)" and ne: "Type t \<noteq> EOF"
  shows "\<exists>pre lex. s = pre @ lex @ r \<and> (\<forall>c\<in>set pre. isWhitespace c) \<and>
           lex \<noteq> [] \<and> \<not> isWhitespace (hd lex) \<and>
           (Literal t = lex \<or> Type t = ILLEGAL \<and> (\<exists>c. lex = [c] \<and> Literal t = go_string_of_byte c))"
proof (cases "dropWhile isWhitespace s")
  case Nil
  have "scan s = (eofToken, [])" by (simp add: scan_def Nil)
  with sc ne show ?thesis by (auto simp: eofToken_def)
next
  case (Cons c cs)
  define pre where "pre = takeWhile isWhitespace s"
  have s: "s = pre @ c # cs"
    by (metis Cons pre_def takeWhile_dropWhile_id)
  have pre: "\<forall>c\<in>set pre. isWhitespace c"
    by (auto simp: pre_def dest: set_takeWhileD)
  have c: "\<not> isWhitespace c" using Cons hd_dropWhile [of isWhitespace s] by simp
  show ?thesis
  proof (cases "punctuation c = None \<and> c \<noteq> NUL \<and> (isLetter c \<or> isDigit c)")
    case False
    have sc': "scan s = (case punctuation c of Some k \<Rightarrow> (newToken k c, cs)
                | None \<Rightarrow> if c = NUL then (eofToken, cs) else (newToken ILLEGAL c, cs))"
      using False by (auto simp: scan_def Cons split: option.split)
    have "r = cs \<and> Literal t = go_string_of_byte c \<and> (Literal t = [c] \<or> Type t = ILLEGAL)"
    proof (cases "punctuation c")
      case None
      with sc sc' ne show ?thesis by (cases "c = NUL") (auto simp: newToken_def eofToken_def)
    next
      case (Some k)
      with sc sc' show ?thesis using punctuation_Some [OF Some] by (auto simp: newToken_def)
    qed
    then show ?thesis using s pre c by (intro exI [of _ pre] exI [of _ "[c]"]) auto
  next
    case True
    define P where "P = (if isLetter c then isLetter else isDigit)"
    have Pc: "P c" using True by (auto simp: P_def)
    have "r = dropWhile P (c # cs) \<and> Literal t = takeWhile P (c # cs)"
      using sc Cons True by (auto simp: scan_def P_def char_class)
    then show ?thesis using s pre c Pc
      by (intro exI [of _ pre] exI [of _ "takeWhile P (c # cs)"]) simp
  qed
qed

lemma scan_literal_alone:
  assumes sc: "scan s = (t, r)" and ne: "Type t \<noteq> EOF" and asc: "ascii_text s"
      and z: "z = [] \<or> isWhitespace (hd z)"
  shows "scan (Literal t @ z) = (t, z)"
proof -
  obtain pre lex where s: "s = pre @ lex @ r" and pre: "\<forall>c\<in>set pre. isWhitespace c"
    and lex: "lex \<noteq> []" "\<not> isWhitespace (hd lex)"
    and lit: "Literal t = lex \<or> Type t = ILLEGAL \<and> (\<exists>c. lex = [c] \<and> Literal t = go_string_of_byte c)"
    using scan_decompose [OF sc ne] by blast
  have "Literal t = lex" using lit asc s by (auto simp: ascii_text_def list_all_iff)
  moreover have "scan (lex @ r) = (t, r)" using sc s pre by (simp add: scan_ws_prefix)
  moreover have "\<not> (\<forall>c\<in>set lex. isWhitespace c)" using lex by (cases lex) auto
  ultimately show ?thesis using z by (auto intro: scan_stable simp: char_class)
qed

lemma tokens_ws_prefix:
  "\<forall>c\<in>set w. isWhitespace c \<Longrightarrow> tokens (w @ s) = tokens s"
  by (simp add: tokens_unfold [of "w @ s"] tokens_unfold [of s] scan_ws_prefix)

lemma tokens_Nil [simp]: "tokens [] = []"
  by (subst tokens.simps) (simp add: eofToken_def)

lemma tokens_print_tokens:
  "ascii_text s \<Longrightarrow> tokens (print_tokens (tokens s)) = tokens s"
proof (induction s rule: tokens.induct)
  case (1 s)
  show ?case
  proof (cases "Type (fst (scan s)) = EOF")
    case True
    then show ?thesis by (simp add: tokens_unfold [of s] print_tokens_def)
  next
    case False
    let ?t = "fst (scan s)" and ?r = "snd (scan s)"
    let ?p = "print_tokens (tokens ?r)"
    have IH: "tokens ?p = tokens ?r"
      using "1.IH" [OF refl _ False] "1.prems" by (simp add: ascii_text_rest)
    have "scan (Literal ?t @ CHR '' '' # ?p) = (?t, CHR '' '' # ?p)"
      using False "1.prems" by (intro scan_literal_alone [of s _ "?r"]) (simp_all add: isWhitespace_def)
    then have "tokens (Literal ?t @ CHR '' '' # ?p) = ?t # tokens ([CHR '' ''] @ ?p)"
      using False by (simp add: tokens_unfold [of "Literal ?t @ CHR '' '' # ?p"])
    also have "tokens ([CHR '' ''] @ ?p) = tokens ?p"
      by (rule tokens_ws_prefix) (simp add: isWhitespace_def)
    finally show ?thesis using False IH by (simp add: tokens_unfold [of s] print_tokens_def)
  qed
qed

lemma length_tokens: "length (tokens s) \<le> length s"
proof (induction s rule: tokens.induct)
  case (1 s)
  show ?case
  proof (cases "Type (fst (scan s)) = EOF")
    case True
    then show ?thesis by (simp add: tokens_unfold [of s])
  next
    case False
    then have "s \<noteq> []" by (auto simp: eofToken_def)
    then have "length (snd (scan s)) < length s" by (rule scan_shorter)
    moreover have "length (tokens (snd (scan s))) \<le> length (snd (scan s))"
      using "1.IH" [OF refl _ False] by simp
    ultimately show ?thesis using False by (simp add: tokens_unfold [of s])
  qed
qed

lemma set_print_tokens:
  "ascii_text s \<Longrightarrow> set (print_tokens (tokens s)) \<subseteq> insert (CHR '' '') (set s)"
proof (induction s rule: tokens.induct)
  case (1 s)
  show ?case
  proof (cases "Type (fst (scan s)) = EOF")
    case True
    then show ?thesis by (simp add: tokens_unfold [of s] print_tokens_def)
  next
    case False
    obtain t r where sc: "scan s = (t, r)" by fastforce
    obtain pre lex where s: "s = pre @ lex @ r"
      and lit: "Literal t = lex \<or> Type t = ILLEGAL \<and> (\<exists>c. lex = [c] \<and> Literal t = go_string_of_byte c)"
      using scan_decompose [OF sc] False sc by fastforce
    have "Literal t = lex" using lit "1.prems" s by (auto simp: ascii_text_def list_all_iff)
    moreover have "set (print_tokens (tokens r)) \<subseteq> insert (CHR '' '') (set r)"
      using "1.IH" [OF sc [symmetric] _ ] False sc "1.prems" ascii_text_rest [of s] by simp
    moreover have "print_tokens (tokens s) = Literal t @ CHR '' '' # print_tokens (tokens r)"
      using False sc by (simp add: tokens_unfold [of s] print_tokens_def)
    ultimately show ?thesis using s by auto
  qed
qed

lemma scan_identifier:
  assumes "scan s = (t, r)" and "Type t \<in> {IDENT, LET, FUNCTION}"
  shows "Literal t \<noteq> [] \<and> (\<forall>c\<in>set (Literal t). isLetter c) \<and>
         (r = [] \<or> \<not> isLetter (hd r)) \<and> Type t = LookupIdent (Literal t)"
proof (cases "dropWhile isWhitespace s")
  case Nil
  have "scan s = (eofToken, [])" by (simp add: scan_def Nil)
  with assms show ?thesis by (auto simp: eofToken_def)
next
  case (Cons c cs)
  have "isLetter c \<and> punctuation c = None \<and> c \<noteq> NUL \<and>
        t = \<lparr>Type = LookupIdent (takeWhile isLetter (c # cs)), Literal = takeWhile isLetter (c # cs)\<rparr> \<and>
        r = dropWhile isLetter (c # cs)"
    using assms Cons punctuation_Some [of c]
    by (auto simp: scan_def newToken_def eofToken_def split: option.splits if_splits)
  then show ?thesis
    using takeWhile_dropWhile_stop [of isLetter "c # cs"] by (auto dest: set_takeWhileD)
qed

lemma scan_integer:
  assumes "scan s = (t, r)" and "Type t = INTEGER"
  shows "Literal t \<noteq> [] \<and> (\<forall>c\<in>set (Literal t). isDigit c) \<and> (r = [] \<or> \<not> isDigit (hd r))"
proof (cases "dropWhile isWhitespace s")
  case Nil
  have "scan s = (eofToken, [])" by (simp add: scan_def Nil)
  with assms show ?thesis by (auto simp: eofToken_def)
next
  case (Cons c cs)
  have "isDigit c \<and> t = \<lparr>Type = INTEGER, Literal = takeWhile isDigit (c # cs)\<rparr> \<and>
        r = dropWhile isDigit (c # cs)"
    using assms Cons punctuation_Some [of c] LookupIdent_cases [of "takeWhile isLetter (c # cs)"]
    by (auto simp: scan_def newToken_def eofToken_def keyword_kinds_def split: option.splits if_splits)
  then show ?thesis
    using takeWhile_dropWhile_stop [of isDigit "c # cs"] by (auto dest: set_takeWhileD)
qed

lemma scan_NUL: "scan (NUL # r) = (eofToken, r)"
  by (simp add: scan_def char_class)

lemma scan_EOF_eofToken:
  assumes "Type (fst (scan s)) = EOF"
  shows "fst (scan s) = eofToken"
proof (cases "dropWhile isWhitespace s")
  case Nil
  then show ?thesis by (simp add: scan_def Nil)
next
  case (Cons c cs)
  with assms show ?thesis
    using LookupIdent_cases [of "takeWhile isLetter (c # cs)"] punctuation_Some [of c]
    by (auto simp: scan_def newToken_def keyword_kinds_def eofToken_def split: option.splits if_splits)
qed

lemma tokens_NUL_truncate:
  "tokens (u @ NUL # v) = tokens u"
proof (induction "length u" arbitrary: u rule: less_induct)
  case less
  show ?case
  proof (cases "\<forall>c\<in>set u. isWhitespace c")
    case True
    then show ?thesis
      using tokens_ws_prefix [OF True, of "NUL # v"] tokens_ws_prefix [OF True, of "[]"]
      by (simp add: tokens_unfold [of "NUL # v"] scan_NUL eofToken_def)
  next
    case False
    obtain t y where sc: "scan u = (t, y)" by fastforce
    obtain u0 where u: "u = u0 @ y"
      using scan_suffix [of u] sc by (auto simp: suffix_def)
    have ne: "\<not> (\<forall>c\<in>set u0. isWhitespace c)"
    proof
      assume "\<forall>c\<in>set u0. isWhitespace c"
      moreover from this have "y = []" using sc u by (intro scan_all_ws_rest [of u0 y t]) simp_all
      ultimately show False using False u by simp
    qed
    have sc': "scan (u0 @ y @ NUL # v) = (t, y @ NUL # v)"
      proof (rule scan_stable [of u0 y])
      show "scan (u0 @ y) = (t, y)" using sc u by simp
      show "y @ NUL # v = [] \<or> (y \<noteq> [] \<and> hd (y @ NUL # v) = hd y) \<or>
            \<not> isLetter (hd (y @ NUL # v)) \<and> \<not> isDigit (hd (y @ NUL # v))"
        by (cases y) (auto simp: char_class)
    qed (rule ne)
    have short: "length y < length u"
      using scan_shorter [of u] sc False by (cases u) auto
    show ?thesis
      using less [OF short] sc sc' u
      by (simp add: tokens_unfold [of "u0 @ y @ NUL # v"] tokens_unfold [of "u0 @ y"])
  qed
qed

end
