(* ===== verification/Lexer.thy ===== *)
theory Lexer
  imports Scan
begin

text \<open>
  The lexer of \<open>src/lexer/lexer.go\<close>: the \<open>Lexer\<close> struct as a record, each method as
  a function from the lexer state to the new state (Go mutates the struct in place
  through the pointer receiver), each \<open>for\<close> loop as a recursive function with its
  termination proof, and the one way the code can fail at run time (a string slice out
  of range, a Go panic) as \<open>None\<close>.  Go's \<open>int\<close> positions are \<open>nat\<close>: they start at
  0 and only grow.  The caller's loops of the specification are \<open>NextTokens\<close> (a fixed
  number of calls) and \<open>lexAll\<close> (calls until \<open>EOF\<close>, a partial function).

  The second half of the theory relates the code to the abstract scanner of Scan.thy.
  \<open>NextToken_at_pos\<close> is the refinement step: on a well-formed state \<open>NextToken\<close>
  returns what \<open>scan\<close> returns on the unread input, leaves a well-formed state whose
  unread input is what \<open>scan\<close> leaves, and advances the cursor.  The properties of
  the specification's section 8 follow for the Go code (C1 to C16): the refinement, the
  token stream, the invariant, progress, eventual \<open>EOF\<close>, termination of the caller's
  loop, whitespace invisibility, literal fidelity, the print/re-lex round trip, maximal
  munch, and the functional behaviour of each method on a well-formed lexer.
\<close>

record Lexer =
  input :: string
  currentPosition :: nat
  nextCharPosition :: nat
  currentChar :: byte

subsection \<open>Reading one character\<close>

definition readChar :: "Lexer \<Rightarrow> Lexer" where
  "readChar lexer =
     (let ch = (if length (input lexer) \<le> nextCharPosition lexer then NUL
                else input lexer ! nextCharPosition lexer)
      in lexer\<lparr>currentChar := ch, currentPosition := nextCharPosition lexer,
               nextCharPosition := nextCharPosition lexer + 1\<rparr>)"

text \<open>\<open>New\<close>: Go's zero values for the fields, then one \<open>readChar\<close>.\<close>

definition New :: "string \<Rightarrow> Lexer" where
  "New s = readChar \<lparr>input = s, currentPosition = 0, nextCharPosition = 0, currentChar = NUL\<rparr>"

subsection \<open>The scanning loops\<close>

text \<open>
  Each loop \<open>for cond(currentChar) { readChar() }\<close> stops: every iteration reads a
  character that is not NUL, and such a \<open>readChar\<close> lowers \<open>lexer_fuel\<close>, the number of
  unread bytes plus one for a current character that is not the sentinel.  This holds
  for every record, not only for the well-formed states below.
\<close>

definition lexer_fuel :: "Lexer \<Rightarrow> nat" where
  "lexer_fuel lexer = (length (input lexer) - nextCharPosition lexer) +
                      (if currentChar lexer = NUL then 0 else 1)"

function skipWhitespace :: "Lexer \<Rightarrow> Lexer" where
  "skipWhitespace lexer =
     (if isWhitespace (currentChar lexer) then skipWhitespace (readChar lexer) else lexer)"
  by pat_completeness auto
termination
  by (relation "measure lexer_fuel") (auto simp: lexer_fuel_def readChar_def Let_def isWhitespace_def)

function readLetters :: "Lexer \<Rightarrow> Lexer" where
  "readLetters lexer =
     (if isLetter (currentChar lexer) then readLetters (readChar lexer) else lexer)"
  by pat_completeness auto
termination
  by (relation "measure lexer_fuel") (auto simp: lexer_fuel_def readChar_def Let_def isLetter_def)

function readDigits :: "Lexer \<Rightarrow> Lexer" where
  "readDigits lexer =
     (if isDigit (currentChar lexer) then readDigits (readChar lexer) else lexer)"
  by pat_completeness auto
termination
  by (relation "measure lexer_fuel") (auto simp: lexer_fuel_def readChar_def Let_def isDigit_def)

declare skipWhitespace.simps [simp del] readLetters.simps [simp del] readDigits.simps [simp del]

definition readIdentifier :: "Lexer \<Rightarrow> (string \<times> Lexer) option" where
  "readIdentifier lexer =
     (let startPosition = currentPosition lexer;
          lexer' = readLetters lexer;
          endPosition = currentPosition lexer'
      in map_option (\<lambda>w. (w, lexer')) (go_slice (input lexer') startPosition endPosition))"

definition readDigit :: "Lexer \<Rightarrow> (string \<times> Lexer) option" where
  "readDigit lexer =
     (let startPosition = currentPosition lexer;
          lexer' = readDigits lexer;
          endPosition = currentPosition lexer'
      in map_option (\<lambda>w. (w, lexer')) (go_slice (input lexer') startPosition endPosition))"

definition NextToken :: "Lexer \<Rightarrow> (Token \<times> Lexer) option" where
  "NextToken lexer0 =
     (let lexer = skipWhitespace lexer0; ch = currentChar lexer in
      if ch = CHR ''='' then Some (newToken ASSIGN ch, readChar lexer)
      else if ch = CHR '';'' then Some (newToken SEMICOLON ch, readChar lexer)
      else if ch = CHR ''('' then Some (newToken LPAREN ch, readChar lexer)
      else if ch = CHR '')'' then Some (newToken RPAREN ch, readChar lexer)
      else if ch = CHR ''{'' then Some (newToken LBRACE ch, readChar lexer)
      else if ch = CHR ''}'' then Some (newToken RBRACE ch, readChar lexer)
      else if ch = CHR '','' then Some (newToken COMMA ch, readChar lexer)
      else if ch = CHR ''+'' then Some (newToken PLUS ch, readChar lexer)
      else if ch = NUL then Some (\<lparr>Type = EOF, Literal = ''''\<rparr>, readChar lexer)
      else if isLetter ch then
        (case readIdentifier lexer of
           None \<Rightarrow> None
         | Some (identifier, lexer') \<Rightarrow>
             Some (\<lparr>Type = LookupIdent identifier, Literal = identifier\<rparr>, lexer'))
      else if isDigit ch then
        (case readDigit lexer of
           None \<Rightarrow> None
         | Some (number, lexer') \<Rightarrow> Some (\<lparr>Type = INTEGER, Literal = number\<rparr>, lexer'))
      else Some (newToken ILLEGAL ch, readChar lexer))"

subsection \<open>Well-formed lexer states\<close>

text \<open>
  The invariant of the struct (specification, section 3): \<open>nextCharPosition\<close> is
  \<open>currentPosition + 1\<close>, and \<open>currentChar\<close> is the byte at \<open>currentPosition\<close>, or
  the NUL sentinel once the position has passed the end.  A well-formed state is thus
  determined by the input and the position: it is \<open>at_pos s i\<close>.  \<open>remaining\<close> is
  the unread input, from the current character on.
\<close>

definition at_pos :: "string \<Rightarrow> nat \<Rightarrow> Lexer" where
  "at_pos s i = \<lparr>input = s, currentPosition = i, nextCharPosition = Suc i,
                 currentChar = (if i < length s then s ! i else NUL)\<rparr>"

definition wf_lexer :: "Lexer \<Rightarrow> bool" where
  "wf_lexer lexer \<longleftrightarrow>
     nextCharPosition lexer = Suc (currentPosition lexer) \<and>
     currentChar lexer = (if currentPosition lexer < length (input lexer)
                          then input lexer ! currentPosition lexer else NUL)"

definition remaining :: "Lexer \<Rightarrow> string" where
  "remaining lexer = drop (currentPosition lexer) (input lexer)"

subsection \<open>The caller\<close>

text \<open>
  \<open>NextTokens n\<close> is the caller's loop of the specification (section 2) and of the
  tests in \<open>src/lexer/lexer_test.go\<close>: \<open>n\<close> calls of \<open>NextToken\<close>, stopping at
  a panic.
\<close>

primrec NextTokens :: "nat \<Rightarrow> Lexer \<Rightarrow> (Token list \<times> Lexer) option" where
  "NextTokens 0 lexer = Some ([], lexer)"
| "NextTokens (Suc n) lexer =
     (case NextToken lexer of
        None \<Rightarrow> None
      | Some (tok, lexer') \<Rightarrow> map_option (\<lambda>(toks, lexer''). (tok # toks, lexer'')) (NextTokens n lexer'))"

text \<open>
  \<open>lexAll\<close> is the caller of the specification's section 2: it calls \<open>NextToken\<close>
  until the token is \<open>EOF\<close> and collects the tokens, the \<open>EOF\<close> token included.
  Nothing bounds the number of calls in advance, so it is a partial function in the
  option monad: \<open>None\<close> is a panic or a loop that never returns.
\<close>

partial_function (option) lexAll :: "Lexer \<Rightarrow> Token list option" where
  "lexAll lexer =
     (case NextToken lexer of
        None \<Rightarrow> None
      | Some (tok, lexer') \<Rightarrow>
          if Type tok = EOF then Some [tok]
          else Option.bind (lexAll lexer') (\<lambda>toks. Some (tok # toks)))"

declare lexAll.simps [code]

subsection \<open>Lemmas: the loops stop, and the switch as a table lookup\<close>
lemma readChar_fuel:
  "currentChar lexer \<noteq> NUL \<Longrightarrow> lexer_fuel (readChar lexer) < lexer_fuel lexer"
  by (auto simp: lexer_fuel_def readChar_def Let_def)

lemma NextToken_punctuation:
  "NextToken lexer0 =
     (let lexer = skipWhitespace lexer0; ch = currentChar lexer in
      case punctuation ch of
        Some k \<Rightarrow> Some (newToken k ch, readChar lexer)
      | None \<Rightarrow>
          if ch = NUL then Some (\<lparr>Type = EOF, Literal = ''''\<rparr>, readChar lexer)
          else if isLetter ch then
            (case readIdentifier lexer of
               None \<Rightarrow> None
             | Some (identifier, lexer') \<Rightarrow>
                 Some (\<lparr>Type = LookupIdent identifier, Literal = identifier\<rparr>, lexer'))
          else if isDigit ch then
            (case readDigit lexer of
               None \<Rightarrow> None
             | Some (number, lexer') \<Rightarrow> Some (\<lparr>Type = INTEGER, Literal = number\<rparr>, lexer'))
          else Some (newToken ILLEGAL ch, readChar lexer))"
  by (simp add: NextToken_def punctuation_def Let_def)
subsection \<open>Lemmas: well-formed states and the scanning loops\<close>

text \<open>
  On a well-formed state, \<open>readChar\<close> moves to the next position, and each of the three
  loops of the source (one generic lemma, \<open>loop_at_pos\<close>, instantiated three times)
  moves past the longest prefix of the unread input whose bytes satisfy its condition.
  \<open>readIdentifier\<close> and \<open>readDigit\<close> then slice exactly that prefix and never panic.
\<close>

lemma wf_lexer_iff_at_pos:
  "wf_lexer lexer \<longleftrightarrow> lexer = at_pos (input lexer) (currentPosition lexer)"
  by (cases lexer) (auto simp: wf_lexer_def at_pos_def)

lemma at_pos_fields [simp]:
  "input (at_pos s i) = s" "currentPosition (at_pos s i) = i"
  "nextCharPosition (at_pos s i) = Suc i"
  by (simp_all add: at_pos_def)

lemma wf_at_pos [simp]: "wf_lexer (at_pos s i)"
  by (simp add: wf_lexer_def at_pos_def)

lemma remaining_at_pos [simp]: "remaining (at_pos s i) = drop i s"
  by (simp add: remaining_def)

lemma currentChar_at_pos:
  "currentChar (at_pos s i) = (case drop i s of [] \<Rightarrow> NUL | c # _ \<Rightarrow> c)"
  by (cases "i < length s") (auto simp: at_pos_def drop_nth_Cons)

lemma at_pos_eq_iff [simp]: "at_pos s i = at_pos t j \<longleftrightarrow> s = t \<and> i = j"
  by (auto simp: at_pos_def)

lemma readChar_at_pos [simp]: "readChar (at_pos s i) = at_pos s (Suc i)"
  by (simp add: readChar_def at_pos_def)

lemma New_at_pos: "New s = at_pos s 0"
  by (simp add: New_def readChar_def at_pos_def)

lemma loop_at_pos:
  assumes f_eq: "\<And>l. f l = (if P (currentChar l) then f (readChar l) else l)"
      and stop: "\<not> P NUL"
  shows "f (at_pos s i) = at_pos s (i + length (takeWhile P (drop i s)))"
proof (induction "length s - i" arbitrary: i)
  case 0
  then have "currentChar (at_pos s i) = NUL" "drop i s = []"
    by (simp_all add: at_pos_def)
  then show ?case using stop by (subst f_eq) simp
next
  case (Suc k)
  then have i: "i < length s" and k: "k = length s - Suc i" by arith+
  have d: "drop i s = s ! i # drop (Suc i) s" using i by (rule drop_nth_Cons)
  have c: "currentChar (at_pos s i) = s ! i" using i by (simp add: at_pos_def)
  show ?case
  proof (cases "P (s ! i)")
    case True
    have "f (at_pos s i) = f (readChar (at_pos s i))"
      using True c by (subst f_eq) simp
    also have "\<dots> = at_pos s (Suc i + length (takeWhile P (drop (Suc i) s)))"
      using Suc.hyps(1) [OF k] by simp
    finally show ?thesis using True d by simp
  next
    case False
    then show ?thesis using c d by (subst f_eq) simp
  qed
qed

lemma skipWhitespace_at_pos:
  "skipWhitespace (at_pos s i) = at_pos s (i + length (takeWhile isWhitespace (drop i s)))"
  by (rule loop_at_pos [OF skipWhitespace.simps]) (simp add: char_class)

lemma readLetters_at_pos:
  "readLetters (at_pos s i) = at_pos s (i + length (takeWhile isLetter (drop i s)))"
  by (rule loop_at_pos [OF readLetters.simps]) (simp add: char_class)

lemma readDigits_at_pos:
  "readDigits (at_pos s i) = at_pos s (i + length (takeWhile isDigit (drop i s)))"
  by (rule loop_at_pos [OF readDigits.simps]) (simp add: char_class)

lemma slice_takeWhile:
  "i \<le> length s \<Longrightarrow>
   go_slice s i (i + length (takeWhile P (drop i s))) = Some (takeWhile P (drop i s))"
proof -
  assume "i \<le> length s"
  moreover have "length (takeWhile P (drop i s)) \<le> length s - i"
    using length_takeWhile_le [of P "drop i s"] by simp
  ultimately show ?thesis by (simp flip: takeWhile_eq_take)
qed

lemma drop_past_takeWhile:
  "drop (i + length (takeWhile P (drop i s))) s = dropWhile P (drop i s)"
  using dropWhile_eq_drop [of P "drop i s"] by (simp add: add.commute)

lemma readIdentifier_at_pos:
  "i \<le> length s \<Longrightarrow> readIdentifier (at_pos s i) =
     Some (takeWhile isLetter (drop i s), at_pos s (i + length (takeWhile isLetter (drop i s))))"
  by (simp add: readIdentifier_def readLetters_at_pos slice_takeWhile)

lemma readDigit_at_pos:
  "i \<le> length s \<Longrightarrow> readDigit (at_pos s i) =
     Some (takeWhile isDigit (drop i s), at_pos s (i + length (takeWhile isDigit (drop i s))))"
  by (simp add: readDigit_def readDigits_at_pos slice_takeWhile)

subsection \<open>Refinement: NextToken computes scan\<close>

lemma NextToken_at_pos:
  "\<exists>i'. NextToken (at_pos s i) = Some (fst (scan (drop i s)), at_pos s i') \<and>
        drop i' s = snd (scan (drop i s)) \<and> i < i' \<and>
        (Type (fst (scan (drop i s))) \<noteq> EOF \<longrightarrow> i' \<le> length s)"
proof -
  define j where "j = i + length (takeWhile isWhitespace (drop i s))"
  have sk: "skipWhitespace (at_pos s i) = at_pos s j"
    by (simp add: j_def skipWhitespace_at_pos)
  have dw: "dropWhile isWhitespace (drop i s) = drop j s"
    by (simp add: j_def drop_past_takeWhile)
  have ij: "i \<le> j" by (simp add: j_def)
  show ?thesis
  proof (cases "j < length s")
    case False
    then have e: "dropWhile isWhitespace (drop i s) = []" "currentChar (at_pos s j) = NUL"
      using dw by (simp_all add: at_pos_def)
    then show ?thesis using sk ij \<open>\<not> j < length s\<close>
      by (intro exI [of _ "Suc j"]) (simp add: NextToken_def scan_def eofToken_def e)
  next
    case True
    define c where "c = s ! j"
    have d: "drop j s = c # drop (Suc j) s" using True by (simp add: c_def drop_nth_Cons)
    have cc: "currentChar (at_pos s j) = c" using True by (simp add: c_def at_pos_def)
    have tw: "\<And>P. j + length (takeWhile P (drop j s)) \<le> length s"
      using True length_takeWhile_le by (metis add_le_cancel_left le_add_diff_inverse length_drop less_imp_le)
    show ?thesis
    proof (cases "isLetter c")
      case True
      then have nz: "c \<noteq> NUL" and np: "punctuation c = None"
        by (auto simp: char_class)
      define n where "n = j + length (takeWhile isLetter (drop j s))"
      have r: "readIdentifier (at_pos s j) = Some (takeWhile isLetter (drop j s), at_pos s n)"
        using \<open>j < length s\<close> by (simp add: n_def readIdentifier_at_pos)
      have rest: "drop n s = dropWhile isLetter (drop j s)"
        by (simp add: n_def drop_past_takeWhile)
      have jn: "j < n" "n \<le> length s"
        using d True tw [of isLetter] by (simp add: n_def, simp only: n_def)
      have sc: "scan (drop i s) =
          (\<lparr>Type = LookupIdent (takeWhile isLetter (drop j s)),
            Literal = takeWhile isLetter (drop j s)\<rparr>, dropWhile isLetter (drop j s))"
        using d nz np True by (simp add: scan_def dw)
      show ?thesis using sk r rest sc cc nz np True ij jn
        by (intro exI [of _ n]) (simp add: NextToken_punctuation)
    next
      case notL: False
      show ?thesis
      proof (cases "isDigit c")
        case True
        then have nz: "c \<noteq> NUL" and np: "punctuation c = None"
          by (auto simp: char_class)
        define n where "n = j + length (takeWhile isDigit (drop j s))"
        have r: "readDigit (at_pos s j) = Some (takeWhile isDigit (drop j s), at_pos s n)"
          using \<open>j < length s\<close> by (simp add: n_def readDigit_at_pos)
        have rest: "drop n s = dropWhile isDigit (drop j s)"
          by (simp add: n_def drop_past_takeWhile)
        have jn: "j < n" "n \<le> length s"
        using d True tw [of isDigit] by (simp add: n_def, simp only: n_def)
        have sc: "scan (drop i s) =
            (\<lparr>Type = INTEGER, Literal = takeWhile isDigit (drop j s)\<rparr>, dropWhile isDigit (drop j s))"
          using d nz np True notL by (simp add: scan_def dw)
        show ?thesis using sk r rest sc cc nz np True notL ij jn
          by (intro exI [of _ n]) (simp add: NextToken_punctuation)
      next
        case False
        then show ?thesis using sk dw ij d cc notL \<open>j < length s\<close>
          by (intro exI [of _ "Suc j"])
             (simp add: NextToken_punctuation scan_def eofToken_def split: option.split)
      qed
    qed
  qed
qed

lemma NextTokens_at_pos:
  "\<exists>i'. NextTokens n (at_pos s i) = Some (fst (scan_iter n (drop i s)), at_pos s i') \<and>
        drop i' s = snd (scan_iter n (drop i s)) \<and> i + n \<le> i'"
proof (induction n arbitrary: i)
  case 0
  then show ?case by simp
next
  case (Suc n)
  obtain i1 where i1: "NextToken (at_pos s i) = Some (fst (scan (drop i s)), at_pos s i1)"
    "drop i1 s = snd (scan (drop i s))" "i < i1"
    using NextToken_at_pos [of s i] by blast
  obtain i2 where "NextTokens n (at_pos s i1) = Some (fst (scan_iter n (drop i1 s)), at_pos s i2)"
    "drop i2 s = snd (scan_iter n (drop i1 s))" "i1 + n \<le> i2"
    using Suc.IH [of i1] by blast
  with i1 show ?case by (intro exI [of _ i2]) simp
qed

lemma wf_lexerE:
  assumes "wf_lexer l"
  obtains s i where "l = at_pos s i"
  using assms by (auto simp: wf_lexer_iff_at_pos)

lemma NextTokens_New:
  "\<exists>i'. NextTokens n (New s) = Some (fst (scan_iter n s), at_pos s i') \<and>
        drop i' s = snd (scan_iter n s) \<and> n \<le> i'"
  using NextTokens_at_pos [of n s 0] by (simp add: New_at_pos)

lemma NextTokens_New_fst:
  "map_option fst (NextTokens n (New s)) = Some (fst (scan_iter n s))"
  using NextTokens_New [of n s] by auto

lemma currentChar_wf:
  "wf_lexer l \<Longrightarrow> currentChar l = (case remaining l of [] \<Rightarrow> NUL | c # _ \<Rightarrow> c)"
  by (auto elim: wf_lexerE simp: currentChar_at_pos)

lemma NextToken_wf_step:
  assumes "wf_lexer l"
  shows "\<exists>l'. NextToken l = Some (fst (scan (remaining l)), l') \<and> wf_lexer l' \<and>
             input l' = input l \<and> remaining l' = snd (scan (remaining l)) \<and>
             currentPosition l < currentPosition l' \<and>
             (Type (fst (scan (remaining l))) \<noteq> EOF \<longrightarrow> currentPosition l' \<le> length (input l))"
proof -
  obtain s i where l: "l = at_pos s i" using assms by (rule wf_lexerE)
  then show ?thesis using NextToken_at_pos [of s i] by fastforce
qed

lemma NextToken_wf_SomeD:
  assumes "wf_lexer l" and "NextToken l = Some (t, l')"
  shows "scan (remaining l) = (t, remaining l') \<and> wf_lexer l' \<and> input l' = input l \<and>
         currentPosition l < currentPosition l' \<and>
         (Type t \<noteq> EOF \<longrightarrow> currentPosition l' \<le> length (input l))"
  using NextToken_wf_step [OF assms(1)] assms(2) by (auto simp: prod_eq_iff)

lemma lexAll_at_pos:
  "lexAll (at_pos s i) = Some (tokens (drop i s) @ [eofToken])"
proof (induction "length s - i" arbitrary: i rule: less_induct)
  case less
  obtain i' where step: "NextToken (at_pos s i) = Some (fst (scan (drop i s)), at_pos s i')"
    and rest: "drop i' s = snd (scan (drop i s))" and ii': "i < i'"
    and bound: "Type (fst (scan (drop i s))) \<noteq> EOF \<longrightarrow> i' \<le> length s"
    using NextToken_at_pos [of s i] by blast
  show ?case
  proof (cases "Type (fst (scan (drop i s))) = EOF")
    case True
    then show ?thesis
      using scan_EOF_eofToken [OF True]
      by (simp add: lexAll.simps [of "at_pos s i"] step tokens_unfold [of "drop i s"])
  next
    case False
    then have "length s - i' < length s - i" using ii' bound by simp
    then show ?thesis
      using less [of i'] False rest
      by (simp add: lexAll.simps [of "at_pos s i"] step tokens_unfold [of "drop i s"])
  qed
qed

text \<open>
  C1 (refinement): on a well-formed lexer, NextToken does not panic, and the token it
  returns and the unread input it leaves are exactly what the list-level scanner scan
  returns on the unread input.
\<close>

theorem NextToken_refines_scan:
  "wf_lexer l \<Longrightarrow>
   map_option (\<lambda>(t, l'). (t, remaining l')) (NextToken l) = Some (scan (remaining l))"
  by (drule NextToken_wf_step) auto

text \<open>
  C2 (functional): on input without NUL bytes, n calls of NextToken on New s return the
  first n tokens of tokens s followed by EOF tokens: the token sequence, and then EOF
  forever.
\<close>

theorem NextTokens_New_stream:
  "NUL \<notin> set s \<Longrightarrow>
   map_option fst (NextTokens n (New s)) = Some (take n (tokens s @ replicate n eofToken))"
  by (simp add: NextTokens_New_fst tokens_stream)

text \<open>
  C3 (invariant): NextToken keeps the invariant of the Lexer struct (nextCharPosition =
  currentPosition + 1, currentChar the byte at currentPosition or NUL past the end) and
  never changes the input.
\<close>

theorem NextToken_preserves_wf:
  "wf_lexer l \<Longrightarrow> NextToken l = Some (t, l') \<Longrightarrow> wf_lexer l' \<and> input l' = input l"
  by (drule (1) NextToken_wf_SomeD) simp

text \<open>
  C4 (termination): every call of NextToken on a well-formed lexer strictly advances the
  cursor, including the call that returns EOF.
\<close>

theorem NextToken_progress:
  "wf_lexer l \<Longrightarrow> NextToken l = Some (t, l') \<Longrightarrow> currentPosition l < currentPosition l'"
  by (drule (1) NextToken_wf_SomeD) simp

text \<open>
  C5 (liveness): for any input s, every call from call number length s + 1 on returns
  the EOF token with an empty literal.
\<close>

theorem NextTokens_eventually_EOF:
  "length s \<le> i \<Longrightarrow> i < n \<Longrightarrow>
   \<exists>ts l. NextTokens n (New s) = Some (ts, l) \<and> ts ! i = eofToken"
  using NextTokens_New [of n s] scan_iter_eventually_EOF [of s i n] by auto

text \<open>
  C6 (termination): the caller's loop that calls NextToken until EOF returns on every
  input, with the tokens of the abstract scanner followed by EOF; a NUL byte ends the
  loop, so nothing after the first NUL is ever tokenised.
\<close>

theorem lexAll_tokens:
  "lexAll (New s) = Some (tokens s @ [eofToken]) \<and> lexAll (New (s @ NUL # v)) = lexAll (New s)"
  by (simp add: New_at_pos lexAll_at_pos tokens_NUL_truncate)

text \<open>
  C7 (equivalence): inserting spaces, tabs, newlines or carriage returns into the input
  at the cursor reached after any number of calls changes none of the tokens of any
  number of calls.
\<close>

theorem NextTokens_insert_whitespace:
  assumes "NextTokens k (New s) = Some (ts, l)" and "\<forall>c\<in>set w. isWhitespace c"
  shows "map_option fst (NextTokens n (New (take (currentPosition l) s @ w @ drop (currentPosition l) s))) =
         map_option fst (NextTokens n (New s))"
proof -
  obtain i' where "NextTokens k (New s) = Some (fst (scan_iter k s), at_pos s i')"
    and r: "drop i' s = snd (scan_iter k s)"
    using NextTokens_New [of k s] by blast
  with assms(1) have i': "currentPosition l = i'" by auto
  have "fst (scan_iter n (take i' s @ w @ drop i' s)) = fst (scan_iter n s)"
    using r [symmetric] by (rule scan_iter_insert_ws) (simp_all add: assms(2))
  then show ?thesis by (simp add: i' NextTokens_New_fst)
qed

text \<open>
  C8 (functional): on ASCII input, every token other than EOF has a non-empty literal
  that is the exact run of input bytes that ends at the new cursor and starts at or
  after the old one.
\<close>

theorem NextToken_literal_fidelity:
  assumes "wf_lexer l" and "NextToken l = Some (t, l')" and "Type t \<noteq> EOF"
      and "ascii_text (input l)"
  shows "\<exists>k. currentPosition l \<le> k \<and> k + length (Literal t) = currentPosition l' \<and>
             Literal t \<noteq> [] \<and> Literal t = take (length (Literal t)) (drop k (input l))"
proof -
  obtain s i where l: "l = at_pos s i" using assms(1) by (rule wf_lexerE)
  obtain i' where i'def: "currentPosition l' = i'" by simp
  from NextToken_wf_SomeD [OF assms(1,2)] assms(3)
  have sc: "scan (drop i s) = (t, remaining l')" and i': "i < i'" "i' \<le> length s"
    and s': "input l' = s"
    by (simp_all add: l i'def)
  have r: "remaining l' = drop i' s" by (simp add: remaining_def i'def s')
  obtain pre lex where d: "drop i s = pre @ lex @ drop i' s" and ne: "lex \<noteq> []"
    and lit: "Literal t = lex \<or> Type t = ILLEGAL \<and> (\<exists>c. lex = [c] \<and> Literal t = go_string_of_byte c)"
    using scan_decompose [OF sc assms(3)] r by metis
  have "set lex \<subseteq> set s" using d set_drop_subset [of i s] by auto
  then have lt: "Literal t = lex" using lit assms(4) by (auto simp: l ascii_text_def list_all_iff)
  have "length (drop i s) = length pre + length lex + length (drop i' s)"
    by (subst d) simp
  then have len: "length s - i = length pre + length lex + (length s - i')" by simp
  have "0 < length lex" using ne by simp
  with len i' have pos: "i' = i + length pre + length lex" by arith
  have "drop (length pre) (drop i s) = lex @ drop i' s" by (subst d) simp
  then have dk: "drop (i + length pre) s = lex @ drop i' s" by (simp add: add.commute)
  show ?thesis
  proof (intro exI conjI)
    show "currentPosition l \<le> i + length pre" by (simp add: l)
    show "i + length pre + length (Literal t) = currentPosition l'" by (simp add: lt pos i'def)
    show "Literal t \<noteq> []" using lt ne by simp
    show "Literal t = take (length (Literal t)) (drop (i + length pre) (input l))"
      using dk lt by (simp add: l)
  qed
qed

text \<open>
  C9 (roundtrip): for ASCII input without NUL bytes, writing the tokens back as text
  (each literal followed by a space) and lexing that text gives the same token stream as
  lexing the input.
\<close>

theorem NextTokens_print_roundtrip:
  assumes "ascii_text s" and "NUL \<notin> set s"
  shows "map_option fst (NextTokens n (New (print_tokens (tokens s)))) =
         map_option fst (NextTokens n (New s))"
proof -
  have "NUL \<notin> set (print_tokens (tokens s))"
    using set_print_tokens [OF assms(1)] assms(2) by auto
  then show ?thesis
    using assms by (simp add: NextTokens_New_fst tokens_stream tokens_print_tokens)
qed

text \<open>
  C10 (functional): an identifier or keyword token is a maximal non-empty run of letters
  (the byte after it is no letter), and its kind is LookupIdent of its literal.
\<close>

theorem NextToken_identifier_maximal:
  assumes "wf_lexer l" and "NextToken l = Some (t, l')" and "Type t \<in> {IDENT, LET, FUNCTION}"
  shows "Literal t \<noteq> [] \<and> (\<forall>c\<in>set (Literal t). isLetter c) \<and>
         \<not> isLetter (currentChar l') \<and> Type t = LookupIdent (Literal t)"
proof -
  from NextToken_wf_SomeD [OF assms(1,2)]
  have sc: "scan (remaining l) = (t, remaining l')" and "wf_lexer l'" by simp_all
  then show ?thesis
    using scan_identifier [OF sc assms(3)] char_classes_not_NUL
    by (auto simp: currentChar_wf split: list.splits)
qed


text \<open>
  C11 (functional): an integer token is a maximal non-empty run of decimal digits (the
  byte after it is no digit).
\<close>

theorem NextToken_integer_maximal:
  assumes "wf_lexer l" and "NextToken l = Some (t, l')" and "Type t = INTEGER"
  shows "Literal t \<noteq> [] \<and> (\<forall>c\<in>set (Literal t). isDigit c) \<and> \<not> isDigit (currentChar l')"
proof -
  from NextToken_wf_SomeD [OF assms(1,2)]
  have sc: "scan (remaining l) = (t, remaining l')" and "wf_lexer l'" by simp_all
  then show ?thesis
    using scan_integer [OF sc assms(3)] char_classes_not_NUL
    by (auto simp: currentChar_wf split: list.splits)
qed

text \<open>
  C12 (invariant): New s establishes the invariant, with the cursor at position 0 of s
  and all of s unread.
\<close>

theorem New_establishes_wf:
  "wf_lexer (New s) \<and> remaining (New s) = s \<and> currentPosition (New s) = 0 \<and> input (New s) = s"
  by (simp add: New_at_pos)

text \<open>
  C13 (functional): skipWhitespace on a well-formed lexer skips exactly the leading
  spaces, tabs, newlines and carriage returns of the unread input and keeps the
  invariant.
\<close>

theorem skipWhitespace_functional:
  "wf_lexer l \<Longrightarrow>
   wf_lexer (skipWhitespace l) \<and> input (skipWhitespace l) = input l \<and>
   remaining (skipWhitespace l) = dropWhile isWhitespace (remaining l)"
  by (erule wf_lexerE) (simp add: skipWhitespace_at_pos drop_past_takeWhile)

text \<open>
  C14 (functional): readIdentifier, called on a letter, returns the longest run of
  letters at the cursor and leaves the cursor on the byte after it, keeping the
  invariant.
\<close>

theorem readIdentifier_functional:
  assumes "wf_lexer l" and "isLetter (currentChar l)"
  shows "\<exists>l'. readIdentifier l = Some (takeWhile isLetter (remaining l), l') \<and> wf_lexer l' \<and>
             input l' = input l \<and> remaining l' = dropWhile isLetter (remaining l)"
proof -
  obtain s i where l: "l = at_pos s i" using assms(1) by (rule wf_lexerE)
  have "i < length s"
    using assms(2) by (cases "i < length s") (auto simp: l at_pos_def char_class)
  then show ?thesis by (simp add: l readIdentifier_at_pos drop_past_takeWhile)
qed

text \<open>
  C15 (functional): readDigit, called on a digit, returns the longest run of digits at
  the cursor and leaves the cursor on the byte after it, keeping the invariant.
\<close>

theorem readDigit_functional:
  assumes "wf_lexer l" and "isDigit (currentChar l)"
  shows "\<exists>l'. readDigit l = Some (takeWhile isDigit (remaining l), l') \<and> wf_lexer l' \<and>
             input l' = input l \<and> remaining l' = dropWhile isDigit (remaining l)"
proof -
  obtain s i where l: "l = at_pos s i" using assms(1) by (rule wf_lexerE)
  have "i < length s"
    using assms(2) by (cases "i < length s") (auto simp: l at_pos_def char_class)
  then show ?thesis by (simp add: l readDigit_at_pos drop_past_takeWhile)
qed

text \<open>
  C16 (functional): readChar on a well-formed lexer moves the cursor one byte forward
  and keeps the invariant.
\<close>

theorem readChar_functional:
  "wf_lexer l \<Longrightarrow>
   wf_lexer (readChar l) \<and> currentPosition (readChar l) = Suc (currentPosition l) \<and>
   remaining (readChar l) = drop 1 (remaining l)"
  by (erule wf_lexerE) simp

subsection \<open>Witnesses: the claims at concrete inputs\<close>

theorem NextToken_refines_scan_witness:
  "wf_lexer (New ''x=1'') \<and>
   map_option (\<lambda>(t, l'). (t, remaining l')) (NextToken (New ''x=1'')) = Some (scan ''x=1'')"
proof -
  have h: "wf_lexer (New ''x=1'')" by (simp add: New_at_pos)
  show ?thesis using h NextToken_refines_scan [OF h] by (simp add: New_at_pos)
qed

theorem NextTokens_New_stream_witness:
  "NUL \<notin> set ''ab 1'' \<and>
   map_option fst (NextTokens 3 (New ''ab 1'')) = Some (take 3 (tokens ''ab 1'' @ replicate 3 eofToken))"
proof -
  have h: "NUL \<notin> set ''ab 1''" by simp
  show ?thesis using h NextTokens_New_stream [OF h, of 3] by simp
qed

lemma NextToken_New_a:
  "NextToken (New ''a'') = Some (\<lparr>Type = IDENT, Literal = ''a''\<rparr>, at_pos ''a'' 1)"
  by code_simp

theorem NextToken_preserves_wf_witness:
  "wf_lexer (New ''a'') \<and> NextToken (New ''a'') = Some (\<lparr>Type = IDENT, Literal = ''a''\<rparr>, at_pos ''a'' 1) \<and>
   wf_lexer (at_pos ''a'' 1) \<and> input (at_pos ''a'' 1) = input (New ''a'')"
proof -
  have h: "wf_lexer (New ''a'')" by (simp add: New_at_pos)
  show ?thesis using h NextToken_New_a NextToken_preserves_wf [OF h NextToken_New_a] by simp
qed

theorem NextToken_progress_witness:
  "wf_lexer (New ''a'') \<and> NextToken (New ''a'') = Some (\<lparr>Type = IDENT, Literal = ''a''\<rparr>, at_pos ''a'' 1) \<and>
   currentPosition (New ''a'') < currentPosition (at_pos ''a'' 1)"
proof -
  have h: "wf_lexer (New ''a'')" by (simp add: New_at_pos)
  show ?thesis using h NextToken_New_a NextToken_progress [OF h NextToken_New_a] by simp
qed

theorem NextTokens_eventually_EOF_witness:
  "length ''ab'' \<le> 2 \<and> (2::nat) < 3 \<and>
   (\<exists>ts l. NextTokens 3 (New ''ab'') = Some (ts, l) \<and> ts ! 2 = eofToken)"
  using NextTokens_eventually_EOF [of "''ab''" 2 3] by simp

lemma lexAll_example:
  "lexAll (New ''a@1'') =
   Some [\<lparr>Type = IDENT, Literal = ''a''\<rparr>, \<lparr>Type = ILLEGAL, Literal = ''@''\<rparr>,
         \<lparr>Type = INTEGER, Literal = ''1''\<rparr>, eofToken]"
  by code_simp

lemma NextTokens_a_semi:
  "NextTokens 1 (New ''a;'') = Some ([\<lparr>Type = IDENT, Literal = ''a''\<rparr>], at_pos ''a;'' 1)"
  by code_simp

theorem NextTokens_insert_whitespace_witness:
  "NextTokens 1 (New ''a;'') = Some ([\<lparr>Type = IDENT, Literal = ''a''\<rparr>], at_pos ''a;'' 1) \<and>
   isWhitespace (CHR '' '') \<and>
   map_option fst (NextTokens 3 (New (take 1 ''a;'' @ '' '' @ drop 1 ''a;''))) =
   map_option fst (NextTokens 3 (New ''a;''))"
proof -
  have h: "\<forall>c\<in>set '' ''. isWhitespace c" by (simp add: isWhitespace_def)
  show ?thesis
    using NextTokens_a_semi h NextTokens_insert_whitespace [OF NextTokens_a_semi h, of 3]
    by (simp add: isWhitespace_def)
qed

lemma NextToken_New_ab_semi:
  "NextToken (New ''ab;'') = Some (\<lparr>Type = IDENT, Literal = ''ab''\<rparr>, at_pos ''ab;'' 2)"
  by code_simp

theorem NextToken_literal_fidelity_witness:
  "wf_lexer (New ''ab;'') \<and>
   NextToken (New ''ab;'') = Some (\<lparr>Type = IDENT, Literal = ''ab''\<rparr>, at_pos ''ab;'' 2) \<and>
   Type \<lparr>Type = IDENT, Literal = ''ab''\<rparr> \<noteq> EOF \<and> ascii_text (input (New ''ab;'')) \<and>
   (\<exists>k. currentPosition (New ''ab;'') \<le> k \<and>
        k + length ''ab'' = currentPosition (at_pos ''ab;'' 2) \<and>
        ''ab'' = take (length ''ab'') (drop k (input (New ''ab;''))))"
proof -
  have h1: "wf_lexer (New ''ab;'')" by (simp add: New_at_pos)
  have h3: "Type \<lparr>Type = IDENT, Literal = ''ab''\<rparr> \<noteq> EOF" by simp
  have h4: "ascii_text (input (New ''ab;''))" by (simp add: New_at_pos ascii_text_def list_all_iff)
  show ?thesis
    using h1 h3 h4 NextToken_New_ab_semi
      NextToken_literal_fidelity [OF h1 NextToken_New_ab_semi h3 h4] by (auto simp: New_at_pos)
qed

theorem NextTokens_print_roundtrip_witness:
  "ascii_text ''x+1'' \<and> NUL \<notin> set ''x+1'' \<and>
   map_option fst (NextTokens 4 (New (print_tokens (tokens ''x+1'')))) =
   map_option fst (NextTokens 4 (New ''x+1''))"
proof -
  have h1: "ascii_text ''x+1''" by (simp add: ascii_text_def list_all_iff)
  have h2: "NUL \<notin> set ''x+1''" by simp
  show ?thesis using h1 h2 NextTokens_print_roundtrip [OF h1 h2, of 4] by simp
qed

theorem NextToken_identifier_maximal_witness:
  "wf_lexer (New ''ab;'') \<and>
   NextToken (New ''ab;'') = Some (\<lparr>Type = IDENT, Literal = ''ab''\<rparr>, at_pos ''ab;'' 2) \<and>
   Type \<lparr>Type = IDENT, Literal = ''ab''\<rparr> \<in> {IDENT, LET, FUNCTION} \<and>
   \<not> isLetter (currentChar (at_pos ''ab;'' 2))"
proof -
  have h1: "wf_lexer (New ''ab;'')" by (simp add: New_at_pos)
  have h3: "Type \<lparr>Type = IDENT, Literal = ''ab''\<rparr> \<in> {IDENT, LET, FUNCTION}" by simp
  show ?thesis
    using h1 h3 NextToken_New_ab_semi
      NextToken_identifier_maximal [OF h1 NextToken_New_ab_semi h3] by simp
qed

lemma NextToken_New_12:
  "NextToken (New ''12;'') = Some (\<lparr>Type = INTEGER, Literal = ''12''\<rparr>, at_pos ''12;'' 2)"
  by code_simp

theorem NextToken_integer_maximal_witness:
  "wf_lexer (New ''12;'') \<and>
   NextToken (New ''12;'') = Some (\<lparr>Type = INTEGER, Literal = ''12''\<rparr>, at_pos ''12;'' 2) \<and>
   Type \<lparr>Type = INTEGER, Literal = ''12''\<rparr> = INTEGER \<and>
   \<not> isDigit (currentChar (at_pos ''12;'' 2))"
proof -
  have h1: "wf_lexer (New ''12;'')" by (simp add: New_at_pos)
  have h3: "Type \<lparr>Type = INTEGER, Literal = ''12''\<rparr> = INTEGER" by simp
  show ?thesis
    using h1 h3 NextToken_New_12 NextToken_integer_maximal [OF h1 NextToken_New_12 h3] by simp
qed

theorem skipWhitespace_functional_witness:
  "wf_lexer (New '' a'') \<and> remaining (skipWhitespace (New '' a'')) = ''a''"
proof -
  have h: "wf_lexer (New '' a'')" by (simp add: New_at_pos)
  show ?thesis using h skipWhitespace_functional [OF h] by (simp add: New_at_pos isWhitespace_def)
qed

theorem readIdentifier_functional_witness:
  "wf_lexer (New ''ab1'') \<and> isLetter (currentChar (New ''ab1'')) \<and>
   (\<exists>l'. readIdentifier (New ''ab1'') = Some (''ab'', l') \<and> remaining l' = ''1'')"
proof -
  have h1: "wf_lexer (New ''ab1'')" by (simp add: New_at_pos)
  have h2: "isLetter (currentChar (New ''ab1''))" by (simp add: New_at_pos at_pos_def isLetter_def)
  show ?thesis using h1 h2 readIdentifier_functional [OF h1 h2]
    by (auto simp: New_at_pos isLetter_def)
qed

theorem readDigit_functional_witness:
  "wf_lexer (New ''12a'') \<and> isDigit (currentChar (New ''12a'')) \<and>
   (\<exists>l'. readDigit (New ''12a'') = Some (''12'', l') \<and> remaining l' = ''a'')"
proof -
  have h1: "wf_lexer (New ''12a'')" by (simp add: New_at_pos)
  have h2: "isDigit (currentChar (New ''12a''))" by (simp add: New_at_pos at_pos_def isDigit_def)
  show ?thesis using h1 h2 readDigit_functional [OF h1 h2]
    by (auto simp: New_at_pos isDigit_def)
qed

theorem readChar_functional_witness:
  "wf_lexer (New ''ab'') \<and> remaining (readChar (New ''ab'')) = ''b''"
proof -
  have h: "wf_lexer (New ''ab'')" by (simp add: New_at_pos)
  show ?thesis using h readChar_functional [OF h] by (simp add: New_at_pos)
qed

end
