(* ===== verification/LexerTests.thy ===== *)
theory LexerTests
  imports Lexer
begin

text \<open>
  The tests of \<open>src/lexer/lexer_test.go\<close>.  A test case is a \<open>GeneralTest\<close> record
  (expected kind and literal).  \<open>expectTokens\<close> is the loop every token test runs: one
  \<open>NextToken\<close> call per expected token, \<open>t.Fatalf\<close> (the test fails) at the first
  kind or literal that differs; a panic fails the test as well.  \<open>TestDefaultValue\<close>
  checks the three fields of a fresh lexer against a \<open>DefaultValueTest\<close> record, whose
  fields carry the suffix \<open>_dv\<close> because the Lexer record already owns their names.
\<close>

record GeneralTest =
  expectedType :: TokenType
  expectedLiteral :: string

record DefaultValueTest =
  currentPosition_dv :: nat
  nextCharPosition_dv :: nat
  currentChar_dv :: byte

fun expectTokens :: "Lexer \<Rightarrow> GeneralTest list \<Rightarrow> bool" where
  "expectTokens lexer [] = True"
| "expectTokens lexer (result # rest) =
     (case NextToken lexer of
        None \<Rightarrow> False
      | Some (got, lexer') \<Rightarrow>
          Type got = expectedType result \<and> Literal got = expectedLiteral result \<and>
          expectTokens lexer' rest)"

definition TestBasicToken :: bool where
  "TestBasicToken =
     (let input = ''={}5;)'';
          expectedResult =
            [\<lparr>expectedType = ASSIGN, expectedLiteral = ''=''\<rparr>,
             \<lparr>expectedType = LBRACE, expectedLiteral = ''{''\<rparr>,
             \<lparr>expectedType = RBRACE, expectedLiteral = ''}''\<rparr>,
             \<lparr>expectedType = INTEGER, expectedLiteral = ''5''\<rparr>,
             \<lparr>expectedType = SEMICOLON, expectedLiteral = '';''\<rparr>,
             \<lparr>expectedType = RPAREN, expectedLiteral = '')''\<rparr>]
      in expectTokens (New input) expectedResult)"

definition TestDefaultValue :: bool where
  "TestDefaultValue =
     (let input = ''let five = 5;'';
          expectedResult = \<lparr>currentPosition_dv = 0, nextCharPosition_dv = 1,
                            currentChar_dv = CHR ''l''\<rparr>;
          lexer = New input
      in currentPosition lexer = currentPosition_dv expectedResult \<and>
         nextCharPosition lexer = nextCharPosition_dv expectedResult \<and>
         currentChar lexer = currentChar_dv expectedResult)"

definition TestNextToken :: bool where
  "TestNextToken =
     (let input = ''let five = 5;'';
          expectedResult =
            [\<lparr>expectedType = LET, expectedLiteral = ''let''\<rparr>,
             \<lparr>expectedType = IDENT, expectedLiteral = ''five''\<rparr>,
             \<lparr>expectedType = ASSIGN, expectedLiteral = ''=''\<rparr>,
             \<lparr>expectedType = INTEGER, expectedLiteral = ''5''\<rparr>,
             \<lparr>expectedType = SEMICOLON, expectedLiteral = '';''\<rparr>]
      in expectTokens (New input) expectedResult)"

text \<open>The raw string literal of \<open>TestBasicSyntax\<close>, with its newlines and tabs.\<close>

definition TestBasicSyntax :: bool where
  "TestBasicSyntax =
     (let nl = CHR 0x0A; tab = CHR 0x09;
          input = ''let x = 5;'' @ [nl, tab] @ ''let y = 10;'' @ [nl, tab] @
                  ''let add = fn(x, y) {'' @ [nl, tab, tab] @ ''x + y;'' @ [nl, tab] @
                  ''};'' @ [nl, nl, tab] @ ''let result = add(x, y);'';
          expectedResult =
            [\<lparr>expectedType = LET, expectedLiteral = ''let''\<rparr>,
             \<lparr>expectedType = IDENT, expectedLiteral = ''x''\<rparr>,
             \<lparr>expectedType = ASSIGN, expectedLiteral = ''=''\<rparr>,
             \<lparr>expectedType = INTEGER, expectedLiteral = ''5''\<rparr>,
             \<lparr>expectedType = SEMICOLON, expectedLiteral = '';''\<rparr>,
             \<lparr>expectedType = LET, expectedLiteral = ''let''\<rparr>,
             \<lparr>expectedType = IDENT, expectedLiteral = ''y''\<rparr>,
             \<lparr>expectedType = ASSIGN, expectedLiteral = ''=''\<rparr>,
             \<lparr>expectedType = INTEGER, expectedLiteral = ''10''\<rparr>,
             \<lparr>expectedType = SEMICOLON, expectedLiteral = '';''\<rparr>,
             \<lparr>expectedType = LET, expectedLiteral = ''let''\<rparr>,
             \<lparr>expectedType = IDENT, expectedLiteral = ''add''\<rparr>,
             \<lparr>expectedType = ASSIGN, expectedLiteral = ''=''\<rparr>,
             \<lparr>expectedType = FUNCTION, expectedLiteral = ''fn''\<rparr>,
             \<lparr>expectedType = LPAREN, expectedLiteral = ''(''\<rparr>,
             \<lparr>expectedType = IDENT, expectedLiteral = ''x''\<rparr>,
             \<lparr>expectedType = COMMA, expectedLiteral = '',''\<rparr>,
             \<lparr>expectedType = IDENT, expectedLiteral = ''y''\<rparr>,
             \<lparr>expectedType = RPAREN, expectedLiteral = '')''\<rparr>,
             \<lparr>expectedType = LBRACE, expectedLiteral = ''{''\<rparr>,
             \<lparr>expectedType = IDENT, expectedLiteral = ''x''\<rparr>,
             \<lparr>expectedType = PLUS, expectedLiteral = ''+''\<rparr>,
             \<lparr>expectedType = IDENT, expectedLiteral = ''y''\<rparr>,
             \<lparr>expectedType = SEMICOLON, expectedLiteral = '';''\<rparr>,
             \<lparr>expectedType = RBRACE, expectedLiteral = ''}''\<rparr>,
             \<lparr>expectedType = SEMICOLON, expectedLiteral = '';''\<rparr>,
             \<lparr>expectedType = LET, expectedLiteral = ''let''\<rparr>,
             \<lparr>expectedType = IDENT, expectedLiteral = ''result''\<rparr>,
             \<lparr>expectedType = ASSIGN, expectedLiteral = ''=''\<rparr>,
             \<lparr>expectedType = IDENT, expectedLiteral = ''add''\<rparr>,
             \<lparr>expectedType = LPAREN, expectedLiteral = ''(''\<rparr>,
             \<lparr>expectedType = IDENT, expectedLiteral = ''x''\<rparr>,
             \<lparr>expectedType = COMMA, expectedLiteral = '',''\<rparr>,
             \<lparr>expectedType = IDENT, expectedLiteral = ''y''\<rparr>,
             \<lparr>expectedType = RPAREN, expectedLiteral = '')''\<rparr>,
             \<lparr>expectedType = SEMICOLON, expectedLiteral = '';''\<rparr>]
      in expectTokens (New input) expectedResult)"

lemma expectTokens_at_pos:
  "expectTokens (at_pos s i) tests \<longleftrightarrow>
   map (\<lambda>r. (expectedType r, expectedLiteral r)) tests =
   map (\<lambda>t. (Type t, Literal t)) (fst (scan_iter (length tests) (drop i s)))"
proof (induction tests arbitrary: i)
  case Nil
  then show ?case by simp
next
  case (Cons r rest)
  obtain i' where step: "NextToken (at_pos s i) = Some (fst (scan (drop i s)), at_pos s i')"
    and rest: "drop i' s = snd (scan (drop i s))"
    using NextToken_at_pos [of s i] by blast
  show ?case using Cons.IH [of i'] by (auto simp: step rest)
qed

text \<open>
  C20 (functional): the loop of the table-driven tests of lexer_test.go passes exactly
  when the table of expected kinds and literals is the sequence of the first tokens that
  the abstract scanner reads from the input: the tests check the lexer against scan and
  nothing else.
\<close>

theorem expectTokens_scan:
  "expectTokens (New s) tests \<longleftrightarrow>
   map (\<lambda>r. (expectedType r, expectedLiteral r)) tests =
   map (\<lambda>t. (Type t, Literal t)) (fst (scan_iter (length tests) s))"
  using expectTokens_at_pos [of s 0 tests] by (simp add: New_at_pos)

text \<open>
  The four tests of lexer_test.go pass: each table is the abstract scanner's output on
  the test's input.
\<close>

theorem lexer_tests_pass:
  "TestBasicToken \<and> TestDefaultValue \<and> TestNextToken \<and> TestBasicSyntax"
  unfolding TestBasicToken_def TestDefaultValue_def TestNextToken_def TestBasicSyntax_def Let_def
  by (simp only: expectTokens_scan) code_simp

text \<open>
  The example scenarios of the specification's section 8 give the tokens it lists,
  each followed by the \<open>EOF\<close> tokens: \<open>5x\<close> is an integer then an identifier,
  \<open>@\<close> is illegal, the empty input is \<open>EOF\<close> at once.
\<close>

lemma spec_examples:
  "map_option fst (NextTokens 8 (New ''={}5;)'')) = Some
     [\<lparr>Type = ASSIGN, Literal = ''=''\<rparr>, \<lparr>Type = LBRACE, Literal = ''{''\<rparr>,
      \<lparr>Type = RBRACE, Literal = ''}''\<rparr>, \<lparr>Type = INTEGER, Literal = ''5''\<rparr>,
      \<lparr>Type = SEMICOLON, Literal = '';''\<rparr>, \<lparr>Type = RPAREN, Literal = '')''\<rparr>, eofToken, eofToken] \<and>
   map_option fst (NextTokens 6 (New ''let five = 5;'')) = Some
     [\<lparr>Type = LET, Literal = ''let''\<rparr>, \<lparr>Type = IDENT, Literal = ''five''\<rparr>,
      \<lparr>Type = ASSIGN, Literal = ''=''\<rparr>, \<lparr>Type = INTEGER, Literal = ''5''\<rparr>,
      \<lparr>Type = SEMICOLON, Literal = '';''\<rparr>, eofToken] \<and>
   map_option fst (NextTokens 3 (New ''5x'')) = Some
     [\<lparr>Type = INTEGER, Literal = ''5''\<rparr>, \<lparr>Type = IDENT, Literal = ''x''\<rparr>, eofToken] \<and>
   map_option fst (NextTokens 2 (New ''@'')) = Some [\<lparr>Type = ILLEGAL, Literal = ''@''\<rparr>, eofToken] \<and>
   map_option fst (NextTokens 1 (New '''')) = Some [eofToken]"
  by code_simp

end
