(* ===== verification/Spec2Isabelle.thy ===== *)
theory Spec2Isabelle
  imports LexerTests
begin

text \<open>
  \<^bold>\<open>Verification of the Monkey lexer.\<close>
  The repository is the first stage of the interpreter of "Writing an Interpreter in
  Go": \<open>src/lexer/lexer.go\<close> turns a source string into tokens, one per call of
  \<open>NextToken\<close>; \<open>src/lexer/lexer_test.go\<close> tests it.  The lexer imports the package
  \<open>monkey/token\<close> (token kinds, the token struct, the keyword table and
  \<open>LookupIdent\<close>), which is not part of \<open>src/\<close> and is modelled from the
  specification.  A caller (not in the repository) calls \<open>NextToken\<close> until it sees
  \<open>EOF\<close>; the lexer calls \<open>LookupIdent\<close> on every identifier-shaped lexeme.

  \<^bold>\<open>Theories.\<close>
  \<^item> \<open>Prelude\<close>: Go's byte strings (\<open>char\<close> is a byte), the NUL sentinel, Go's
    slice \<open>s[a:b]\<close> as \<open>go_slice\<close> (\<open>None\<close> is the panic), Go's
    \<open>string(byte)\<close> conversion as \<open>go_string_of_byte\<close> (UTF-8 of the byte read as a
    code point), and the list lemmas the proofs share.
  \<^item> \<open>Token\<close>: \<open>TokenType\<close> (a datatype with the Go constants as constructors),
    \<open>Token\<close> (a record with \<open>Type\<close> and \<open>Literal\<close>), \<open>keywords_map\<close> and
    \<open>LookupIdent\<close>, modelled from the specification (the package is not in
    \<open>src/\<close>).
  \<^item> \<open>Chars\<close>: the byte-level helpers of lexer.go: \<open>isDigit\<close>, \<open>isLetter\<close>,
    \<open>isWhitespace\<close> (the condition of the loop in \<open>skipWhitespace\<close>),
    \<open>newToken\<close>, and \<open>punctuation\<close>, the eight single-byte cases of the
    \<open>switch\<close> of \<open>NextToken\<close> as a table.
  \<^item> \<open>Scan\<close>: the abstract specification: \<open>scan\<close> reads one token off the unread
    text, \<open>scan_iter\<close> iterates it, \<open>tokens\<close> is the sequence before the first
    \<open>EOF\<close>, \<open>print_tokens\<close> writes tokens back.  Its lemmas are the
    position-free facts: lexeme decomposition, stability of a token's end, whitespace
    insertion, eventual \<open>EOF\<close>, the exact stream on NUL-free input, truncation at a
    NUL byte, and the print/re-lex round trip.
  \<^item> \<open>Lexer\<close>: the struct \<open>Lexer\<close> as a record with the four Go fields, and one
    definition per function of lexer.go: \<open>New\<close>, \<open>readChar\<close>, \<open>NextToken\<close>
    (the whole \<open>switch\<close> with its early returns), \<open>readIdentifier\<close> and
    \<open>readDigit\<close> (with their loops \<open>readLetters\<close> and \<open>readDigits\<close>),
    \<open>skipWhitespace\<close>.  Methods with a pointer receiver take the state and return
    the new one.  Each \<open>for\<close> loop is a \<open>function\<close> whose termination is proved
    with the measure \<open>lexer_fuel\<close> (unread bytes plus one for a current byte that is
    not NUL), for every record; no fuel is needed.  \<open>wf_lexer\<close> is the struct's
    invariant and \<open>at_pos s i\<close> the one well-formed state at position \<open>i\<close>; the
    loops on such states are characterised by \<open>takeWhile\<close>/\<open>dropWhile\<close> (one
    generic lemma, \<open>loop_at_pos\<close>).  The callers of the specification's section 2
    are \<open>NextTokens n\<close> (\<open>n\<close> calls, stopping at a panic) and \<open>lexAll\<close>
    (calls until \<open>EOF\<close>, a \<open>partial_function\<close> in the option monad, so that a loop
    that never ends would be \<open>None\<close>; C6 proves it is never \<open>None\<close>).  The
    refinement step \<open>NextToken_at_pos\<close>: \<open>NextToken\<close> on \<open>at_pos s i\<close> computes
    \<open>scan (drop i s)\<close>, and \<open>NextTokens n\<close> computes \<open>scan_iter n\<close>.  From this:
    C1 to C16 for the Go code.
  \<^item> \<open>LexerTests\<close>: the Go tests (records \<open>GeneralTest\<close>, \<open>DefaultValueTest\<close>,
    the loop \<open>expectTokens\<close>, the four test functions with their inputs): the test
    loop checks exactly the abstract scanner's output (C20), and the four tests pass.
  \<^item> \<open>Spec2Isabelle\<close> (this theory): what modelling showed about the code against the
    specification; C17 to C19.

  \<^bold>\<open>Findings.\<close>
  (1) The code's end-of-input sentinel is the byte 0, so a NUL byte inside the input
  is reported as \<open>EOF\<close>, consumed, and the next call lexes on after it (C17): EOF is
  not final on such input, against section 4.1 ("repeated calls after exhaustion keep
  returning EOF") and section 3 (a sentinel "distinct from any valid input byte").  A
  caller that stops at the first \<open>EOF\<close> never sees the text after a NUL byte (C6).
  (2) An illegal byte from 128 on gets as literal its two-byte UTF-8 encoding, not
  the input byte (C18), against "literal is an exact, contiguous substring"; literal
  fidelity holds on ASCII input (C8).  (3) The call that returns \<open>EOF\<close> still
  advances the cursor (C4, C19), where section 4.1 says "without further advancing";
  the tokens returned are the same.  (4) Section 3 lists \<open>function\<close> among the
  reserved words; the tests and the keyword table know only \<open>fn\<close> and \<open>let\<close>.

  \<^bold>\<open>Not modelled.\<close>  Go's \<open>int\<close> overflow of the positions (they are \<open>nat\<close>: an
  overflow needs about \<open>2^63\<close> calls); the messages of \<open>t.Fatalf\<close> (a test is a
  boolean: passes or fails); the caller outside the repository beyond
  \<open>NextTokens\<close> and \<open>lexAll\<close>; concurrency (the lexer is single-threaded and owns
  its state).
\<close>

lemma scan_high_byte:
  assumes "128 \<le> (of_char c :: nat)"
  shows "scan (c # r) = (newToken ILLEGAL c, r)"
proof -
  have "\<not> isWhitespace c" "punctuation c = None" "c \<noteq> NUL" "\<not> isLetter c" "\<not> isDigit c"
    using assms by (auto simp: char_code punctuation_None_code)
  then show ?thesis by (simp add: scan_def)
qed

lemma go_string_of_byte_high:
  "128 \<le> (of_char c :: nat) \<Longrightarrow> length (go_string_of_byte c) = 2"
  by (simp add: go_string_of_byte_def)

text \<open>
  C17 (error): a NUL byte inside the input is reported as \<open>EOF\<close> and consumed, and the next
  call goes on after it: the specification's end-of-input sentinel is an ordinary input
  byte in the code, so \<open>EOF\<close> is not final on such input.
\<close>

theorem NextToken_NUL_is_EOF:
  assumes "wf_lexer l" and "remaining l = NUL # r"
  shows "\<exists>l'. NextToken l = Some (eofToken, l') \<and> wf_lexer l' \<and> remaining l' = r"
  using NextToken_wf_step [OF assms(1)] assms(2) by (auto simp: scan_NUL)

text \<open>
  C18 (functional): an illegal byte from 128 on is returned with a two-byte literal, its UTF-8
  encoding (Go's \<open>string(byte)\<close>), not with the byte of the input.
\<close>

theorem NextToken_high_byte_literal:
  assumes "wf_lexer l" and "remaining l = c # r" and "128 \<le> (of_char c :: nat)"
  shows "\<exists>l'. NextToken l = Some (\<lparr>Type = ILLEGAL, Literal = go_string_of_byte c\<rparr>, l') \<and>
              remaining l' = r \<and> length (go_string_of_byte c) = 2"
  using NextToken_wf_step [OF assms(1)] assms(2,3)
  by (auto simp: scan_high_byte newToken_def go_string_of_byte_high)

text \<open>
  C19 (functional): at the end of the input \<open>NextToken\<close> returns \<open>EOF\<close> and still advances the
  cursor by one (the \<open>readChar\<close> after the \<open>switch\<close>).
\<close>

theorem NextToken_EOF_advances:
  assumes "wf_lexer l" and "remaining l = []"
  shows "NextToken l = Some (eofToken, readChar l) \<and>
         currentPosition (readChar l) = Suc (currentPosition l)"
proof -
  obtain s i where l: "l = at_pos s i" using assms(1) by (rule wf_lexerE)
  with assms(2) have "length s \<le> i" by simp
  then have "skipWhitespace l = l" "currentChar l = NUL"
    by (simp add: l skipWhitespace_at_pos, simp add: l at_pos_def)
  then show ?thesis by (simp add: NextToken_punctuation char_class eofToken_def l)
qed

subsection \<open>Witnesses\<close>

lemma NextTokens_NUL_example:
  "map_option fst (NextTokens 4 (New (''a'' @ [NUL] @ ''b''))) =
   Some [\<lparr>Type = IDENT, Literal = ''a''\<rparr>, eofToken, \<lparr>Type = IDENT, Literal = ''b''\<rparr>, eofToken]"
  by code_simp

theorem NextToken_NUL_is_EOF_witness:
  "wf_lexer (at_pos (''a'' @ [NUL] @ ''b'') 1) \<and>
   remaining (at_pos (''a'' @ [NUL] @ ''b'') 1) = NUL # ''b'' \<and>
   (\<exists>l'. NextToken (at_pos (''a'' @ [NUL] @ ''b'') 1) = Some (eofToken, l') \<and>
         wf_lexer l' \<and> remaining l' = ''b'')"
proof -
  have h1: "wf_lexer (at_pos (''a'' @ [NUL] @ ''b'') 1)" by simp
  have h2: "remaining (at_pos (''a'' @ [NUL] @ ''b'') 1) = NUL # ''b''" by simp
  show ?thesis using h1 h2 NextToken_NUL_is_EOF [OF h1 h2] by blast
qed

theorem NextToken_high_byte_literal_witness:
  "wf_lexer (New [CHR 0xFF]) \<and> remaining (New [CHR 0xFF]) = [CHR 0xFF] \<and>
   128 \<le> (of_char (CHR 0xFF) :: nat) \<and>
   (\<exists>l'. NextToken (New [CHR 0xFF]) =
          Some (\<lparr>Type = ILLEGAL, Literal = [CHR 0xC3, CHR 0xBF]\<rparr>, l') \<and> remaining l' = [])"
proof -
  have h1: "wf_lexer (New [CHR 0xFF])" by (simp add: New_at_pos)
  have h2: "remaining (New [CHR 0xFF]) = CHR 0xFF # []" by (simp add: New_at_pos)
  have h3: "128 \<le> (of_char (CHR 0xFF) :: nat)" by simp
  have "go_string_of_byte (CHR 0xFF) = [CHR 0xC3, CHR 0xBF]" by code_simp
  then show ?thesis using h1 h2 h3 NextToken_high_byte_literal [OF h1 h2 h3] by simp
qed

theorem NextToken_EOF_advances_witness:
  "wf_lexer (New '''') \<and> remaining (New '''') = [] \<and>
   NextToken (New '''') = Some (eofToken, readChar (New '''')) \<and>
   currentPosition (readChar (New '''')) = 1"
proof -
  have h1: "wf_lexer (New '''')" by (simp add: New_at_pos)
  have h2: "remaining (New '''') = []" by (simp add: New_at_pos)
  show ?thesis using h1 h2 NextToken_EOF_advances [OF h1 h2] by (simp add: New_at_pos)
qed

end
